theory Spec2Isabelle
  imports Complex_Main "HOL-Library.Word"
begin

section \<open>Identifiers, coordinates and errors\<close>

text \<open>
  \<open>NodeID\<close> is an unsigned and \<open>WayID\<close> a signed 64-bit integer. The store only ever
  compares way ids for equality (hash-map keys, the \<open>done\<close> map), so both are 64-bit words.
  \<open>LatpLon\<close> holds two signed 32-bit integers, read with \<open>sint\<close>; a value-initialised
  \<open>LatpLon()\<close> has both fields zero.
\<close>

type_synonym NodeID = "64 word"
type_synonym WayID = "64 word"
type_synonym NodeVec = "NodeID list"
type_synonym WayVec = "WayID list"

record LatpLon =
  latp :: "32 word"
  lon :: "32 word"

definition LatpLon_zero :: LatpLon where
  "LatpLon_zero = \<lparr>latp = 0, lon = 0\<rparr>"

text \<open>
  The exceptions of the source. The three \<open>std::out_of_range\<close> messages carry the id;
  \<open>bad_alloc\<close> is \<open>boost::interprocess::bad_alloc\<close>. \<open>undefined_behaviour\<close> stands for
  the places where the C++ reads through an iterator of an empty range or resolves a handle
  that no insert returned: the model stops there instead of inventing a value.
\<close>

datatype error =
    CouldNotFindNode NodeID
  | FailedToStoreNode NodeID
  | CouldNotFindWay WayID
  | bad_alloc
  | undefined_behaviour

type_synonym Point = "real \<times> real"
type_synonym Linestring = "Point list"
type_synonym Ring = "Point list"
type_synonym Polygon = "Ring \<times> Ring list"
type_synonym MultiPolygon = "Polygon list"

section \<open>Node stores\<close>

subsection \<open>\<open>NodeStore\<close>: the hash-map variant\<close>

type_synonym NodeStore = "NodeID \<rightharpoonup> LatpLon"

definition NodeStore_at :: "NodeStore \<Rightarrow> NodeID \<Rightarrow> error + LatpLon" where
  "NodeStore_at mLatpLons i =
     (case mLatpLons i of None \<Rightarrow> Inl (CouldNotFindNode i) | Some c \<Rightarrow> Inr c)"

definition NodeStore_count :: "NodeStore \<Rightarrow> NodeID \<Rightarrow> nat" where
  "NodeStore_count mLatpLons i = (if mLatpLons i = None then 0 else 1)"

definition NodeStore_size :: "NodeStore \<Rightarrow> nat" where
  "NodeStore_size mLatpLons = card (dom mLatpLons)"

text \<open>\<open>emplace\<close> stores the pair only when the key is absent; an existing entry stays.\<close>

definition NodeStore_insert_back :: "NodeStore \<Rightarrow> NodeID \<Rightarrow> LatpLon \<Rightarrow> NodeStore" where
  "NodeStore_insert_back mLatpLons i coord =
     (case mLatpLons i of None \<Rightarrow> mLatpLons(i \<mapsto> coord) | Some _ \<Rightarrow> mLatpLons)"

definition NodeStore_clear :: "NodeStore \<Rightarrow> NodeStore" where
  "NodeStore_clear mLatpLons = Map.empty"

subsection \<open>\<open>NodeStoreCompact\<close>: the vector variant\<close>

type_synonym NodeStoreCompact = "LatpLon list"

definition NodeStoreCompact_at :: "NodeStoreCompact \<Rightarrow> NodeID \<Rightarrow> error + LatpLon" where
  "NodeStoreCompact_at mLatpLons i =
     (if unat i \<ge> length mLatpLons then Inl (CouldNotFindNode i)
      else Inr (mLatpLons ! unat i))"

text \<open>
  \<open>reserve\<close> resizes the vector to \<open>nodes\<close> elements (new ones value-initialised). The
  vector's \<open>max_size()\<close> belongs to the allocator and is a parameter here.
\<close>

definition NodeStoreCompact_reserve ::
  "nat \<Rightarrow> NodeStoreCompact \<Rightarrow> 32 word \<Rightarrow> error + NodeStoreCompact" where
  "NodeStoreCompact_reserve max_size mLatpLons nodes =
     (if unat nodes > max_size then Inl bad_alloc
      else Inr (take (unat nodes) mLatpLons
                @ replicate (unat nodes - length mLatpLons) LatpLon_zero))"

definition NodeStoreCompact_insert_back ::
  "NodeStoreCompact \<Rightarrow> NodeID \<Rightarrow> LatpLon \<Rightarrow> error + NodeStoreCompact" where
  "NodeStoreCompact_insert_back mLatpLons i coord =
     (if unat i \<ge> length mLatpLons then Inl (FailedToStoreNode i)
      else Inr (mLatpLons[unat i := coord]))"

definition NodeStoreCompact_size :: "NodeStoreCompact \<Rightarrow> nat" where
  "NodeStoreCompact_size mLatpLons = length mLatpLons"

text \<open>\<open>std::fill\<close> over the whole vector: every slot becomes \<open>LatpLon()\<close>, the length stays.\<close>

definition NodeStoreCompact_clear :: "NodeStoreCompact \<Rightarrow> NodeStoreCompact" where
  "NodeStoreCompact_clear mLatpLons = map (\<lambda>_. LatpLon_zero) mLatpLons"

section \<open>Way store and relation store\<close>

type_synonym WayStore = "WayID \<rightharpoonup> NodeVec"

definition WayStore_at :: "WayStore \<Rightarrow> WayID \<Rightarrow> error + NodeVec" where
  "WayStore_at mNodeLists i =
     (case mNodeLists i of None \<Rightarrow> Inl (CouldNotFindWay i) | Some way \<Rightarrow> Inr way)"

definition WayStore_count :: "WayStore \<Rightarrow> WayID \<Rightarrow> nat" where
  "WayStore_count mNodeLists i = (if mNodeLists i = None then 0 else 1)"

text \<open>
  \<open>insert_back\<close> emplaces and returns a reference to the vector stored under \<open>i\<close>
  (\<open>result.first->second\<close>): the new one, or the one that was there already. The
  reference is modelled by the key of the map entry it points into.
\<close>

definition WayStore_insert_back :: "WayStore \<Rightarrow> WayID \<Rightarrow> NodeVec \<Rightarrow> WayStore \<times> WayID" where
  "WayStore_insert_back mNodeLists i nodeVec =
     (case mNodeLists i of
        None \<Rightarrow> (mNodeLists(i \<mapsto> nodeVec), i)
      | Some _ \<Rightarrow> (mNodeLists, i))"

definition WayStore_clear :: "WayStore \<Rightarrow> WayStore" where
  "WayStore_clear mNodeLists = Map.empty"

definition WayStore_size :: "WayStore \<Rightarrow> nat" where
  "WayStore_size mNodeLists = card (dom mNodeLists)"

type_synonym relation_entry_t = "WayVec \<times> WayVec"
type_synonym RelationStore = "WayID \<rightharpoonup> relation_entry_t"

definition RelationStore_insert_front ::
  "RelationStore \<Rightarrow> WayID \<Rightarrow> WayVec \<Rightarrow> WayVec \<Rightarrow> RelationStore \<times> WayID" where
  "RelationStore_insert_front mOutInLists i outerWayVec innerWayVec =
     (case mOutInLists i of
        None \<Rightarrow> (mOutInLists(i \<mapsto> (outerWayVec, innerWayVec)), i)
      | Some _ \<Rightarrow> (mOutInLists, i))"

text \<open>
  Modelled from the spec: \<open>RelationStore::clear\<close> and \<open>RelationStore::size\<close> are only
  declared in the header (their bodies are in a translation unit that is not among the
  sources). The spec gives the relation store the same \<open>size\<close> and \<open>clear\<close> "as usual" as
  the way store: \<open>clear\<close> empties the hash map, \<open>size\<close> counts its entries.
\<close>

definition RelationStore_clear :: "RelationStore \<Rightarrow> RelationStore" where
  "RelationStore_clear mOutInLists = Map.empty"

definition RelationStore_size :: "RelationStore \<Rightarrow> nat" where
  "RelationStore_size mOutInLists = card (dom mOutInLists)"

section \<open>The store object\<close>

text \<open>
  \<open>OSMStoreImpl<NodeStoreT>\<close> is instantiated with one of the two node stores. The arena
  is a mapped file: \<open>map_size\<close> is the \<open>std::size_t\<close> member the class keeps,
  \<open>file_size\<close> the length of the backing file in bytes. Handles are offsets of stored
  objects in the arena; the model names the object a handle points at.
\<close>

datatype NodeStoreT = Compact NodeStoreCompact | Sparse NodeStore

record generated =
  points_store :: "Point list"
  linestring_store :: "Linestring list"
  multi_polygon_store :: "MultiPolygon list"

datatype which_generated = osm | shp

datatype handle_t =
    way_handle WayID
  | relation_handle WayID
  | point_handle which_generated nat
  | linestring_handle which_generated nat
  | multi_polygon_handle which_generated nat

record OSMStore =
  nodes :: NodeStoreT
  ways :: WayStore
  relations :: RelationStore
  osm_generated :: generated
  shp_generated :: generated
  map_size :: "64 word"
  file_size :: nat

definition init_map_size :: "64 word" where
  "init_map_size = 1024000000"

definition nodes_size :: "NodeStoreT \<Rightarrow> nat" where
  "nodes_size ns = (case ns of Compact v \<Rightarrow> NodeStoreCompact_size v | Sparse m \<Rightarrow> NodeStore_size m)"

definition nodes_clear :: "NodeStoreT \<Rightarrow> NodeStoreT" where
  "nodes_clear ns =
     (case ns of Compact v \<Rightarrow> Compact (NodeStoreCompact_clear v)
               | Sparse m \<Rightarrow> Sparse (NodeStore_clear m))"

definition impl_nodes_at :: "OSMStore \<Rightarrow> NodeID \<Rightarrow> error + LatpLon" where
  "impl_nodes_at s i =
     (case nodes s of Compact v \<Rightarrow> NodeStoreCompact_at v i | Sparse m \<Rightarrow> NodeStore_at m i)"

definition nodes_at :: "OSMStore \<Rightarrow> NodeID \<Rightarrow> error + LatpLon" where
  "nodes_at s i = impl_nodes_at s i"

text \<open>\<open>OSMStoreImpl::clear\<close>: the three entity stores, nothing else.\<close>

definition clear :: "OSMStore \<Rightarrow> OSMStore" where
  "clear s = s\<lparr>nodes := nodes_clear (nodes s),
               ways := WayStore_clear (ways s),
               relations := RelationStore_clear (relations s)\<rparr>"

section \<open>The resize-retry loop\<close>

text \<open>
  The \<open>catch\<close> block of \<open>perform_mmap_operation\<close>: the file is grown by \<open>map_size\<close>
  bytes, \<open>map_size\<close> is doubled (in \<open>std::size_t\<close> arithmetic), the file is mapped again
  and \<open>reopen()\<close> looks the named containers up again, which leaves their contents as
  they are.
\<close>

definition grow_reopen :: "OSMStore \<Rightarrow> OSMStore" where
  "grow_reopen s = s\<lparr>file_size := file_size s + unat (map_size s), map_size := map_size s * 2\<rparr>"

text \<open>
  \<open>func\<close> is the closure handed to \<open>perform_mmap_operation\<close>. It either returns
  (\<open>Inr\<close>: its result and the store it leaves) or throws (\<open>Inl\<close>: the exception and
  the store as it is at the throw). The loop is \<open>while(true)\<close>: it need not return.
\<close>

partial_function (option) perform_mmap_operation ::
  "(OSMStore \<Rightarrow> (error \<times> OSMStore) + ('a \<times> OSMStore)) \<Rightarrow> OSMStore
     \<Rightarrow> ((error \<times> OSMStore) + ('a \<times> OSMStore)) option" where
  "perform_mmap_operation func s =
     (case func s of
        Inr r \<Rightarrow> Some (Inr r)
      | Inl (e, s') \<Rightarrow>
          if e = bad_alloc then perform_mmap_operation func (grow_reopen s')
          else Some (Inl (e, s')))"

text \<open>
  What the \<open>catch\<close> clause catches, and the store as the \<open>k\<close>-th attempt of the loop
  finds it.
\<close>

definition caught :: "(error \<times> OSMStore) + ('a \<times> OSMStore) \<Rightarrow> bool" where
  "caught r = (case r of Inl (e, s') \<Rightarrow> e = bad_alloc | Inr x \<Rightarrow> False)"

definition next_attempt ::
  "(OSMStore \<Rightarrow> (error \<times> OSMStore) + ('a \<times> OSMStore)) \<Rightarrow> OSMStore \<Rightarrow> OSMStore" where
  "next_attempt func s = (case func s of Inl (e, s') \<Rightarrow> grow_reopen s' | Inr (r, s') \<Rightarrow> s')"

fun attempt_state ::
  "(OSMStore \<Rightarrow> (error \<times> OSMStore) + ('a \<times> OSMStore)) \<Rightarrow> nat \<Rightarrow> OSMStore \<Rightarrow> OSMStore" where
  "attempt_state func 0 s = s"
| "attempt_state func (Suc k) s = attempt_state func k (next_attempt func s)"

text \<open>The loop returns from its \<open>k\<close>-th attempt: the earlier ones were caught, this one is not.\<close>

fun returns_at ::
  "(OSMStore \<Rightarrow> (error \<times> OSMStore) + ('a \<times> OSMStore)) \<Rightarrow> nat \<Rightarrow> OSMStore \<Rightarrow> bool" where
  "returns_at func 0 s = (\<not> caught (func s))"
| "returns_at func (Suc k) s = (caught (func s) \<and> returns_at func k (next_attempt func s))"

section \<open>Mutating operations of the store\<close>

text \<open>
  Allocation inside the mapped file is done by the segment manager of Boost.Interprocess,
  which is not part of the repository. The parameter \<open>avail\<close> says whether the arena of a
  store has room for the allocation requested of it; a request that finds no room throws
  \<open>bad_alloc\<close>.
\<close>

definition impl_nodes_insert_back ::
  "(OSMStore \<Rightarrow> bool) \<Rightarrow> NodeID \<Rightarrow> LatpLon \<Rightarrow> OSMStore \<Rightarrow> (error \<times> OSMStore) + (unit \<times> OSMStore)" where
  "impl_nodes_insert_back avail i coord s =
     (case nodes s of
        Compact v \<Rightarrow>
          (case NodeStoreCompact_insert_back v i coord of
             Inl e \<Rightarrow> Inl (e, s)
           | Inr v' \<Rightarrow> Inr ((), s\<lparr>nodes := Compact v'\<rparr>))
      | Sparse m \<Rightarrow>
          if avail s then Inr ((), s\<lparr>nodes := Sparse (NodeStore_insert_back m i coord)\<rparr>)
          else Inl (bad_alloc, s))"

definition nodes_insert_back ::
  "(OSMStore \<Rightarrow> bool) \<Rightarrow> NodeID \<Rightarrow> LatpLon \<Rightarrow> OSMStore
     \<Rightarrow> ((error \<times> OSMStore) + (unit \<times> OSMStore)) option" where
  "nodes_insert_back avail i coord s =
     perform_mmap_operation (impl_nodes_insert_back avail i coord) s"

definition ways_insert_back_func ::
  "(OSMStore \<Rightarrow> bool) \<Rightarrow> WayID \<Rightarrow> NodeVec \<Rightarrow> OSMStore \<Rightarrow> (error \<times> OSMStore) + (handle_t \<times> OSMStore)" where
  "ways_insert_back_func avail i nodeVec s =
     (if avail s then
        (case WayStore_insert_back (ways s) i nodeVec of
           (ws, way) \<Rightarrow> Inr (way_handle way, s\<lparr>ways := ws\<rparr>))
      else Inl (bad_alloc, s))"

definition ways_insert_back ::
  "(OSMStore \<Rightarrow> bool) \<Rightarrow> WayID \<Rightarrow> NodeVec \<Rightarrow> OSMStore
     \<Rightarrow> ((error \<times> OSMStore) + (handle_t \<times> OSMStore)) option" where
  "ways_insert_back avail i nodeVec s =
     perform_mmap_operation (ways_insert_back_func avail i nodeVec) s"

definition relations_insert_front_func ::
  "(OSMStore \<Rightarrow> bool) \<Rightarrow> WayID \<Rightarrow> WayVec \<Rightarrow> WayVec \<Rightarrow> OSMStore
     \<Rightarrow> (error \<times> OSMStore) + (handle_t \<times> OSMStore)" where
  "relations_insert_front_func avail i outerWayVec innerWayVec s =
     (if avail s then
        (case RelationStore_insert_front (relations s) i outerWayVec innerWayVec of
           (rs, relation) \<Rightarrow> Inr (relation_handle relation, s\<lparr>relations := rs\<rparr>))
      else Inl (bad_alloc, s))"

definition relations_insert_front ::
  "(OSMStore \<Rightarrow> bool) \<Rightarrow> WayID \<Rightarrow> WayVec \<Rightarrow> WayVec \<Rightarrow> OSMStore
     \<Rightarrow> ((error \<times> OSMStore) + (handle_t \<times> OSMStore)) option" where
  "relations_insert_front avail i outerWayVec innerWayVec s =
     perform_mmap_operation (relations_insert_front_func avail i outerWayVec innerWayVec) s"

text \<open>The generated-geometry stores; \<open>store\<close> is \<open>osm()\<close> or \<open>shp()\<close>.\<close>

definition get_generated :: "which_generated \<Rightarrow> OSMStore \<Rightarrow> generated" where
  "get_generated store s = (case store of osm \<Rightarrow> osm_generated s | shp \<Rightarrow> shp_generated s)"

definition set_generated :: "which_generated \<Rightarrow> generated \<Rightarrow> OSMStore \<Rightarrow> OSMStore" where
  "set_generated store g s =
     (case store of osm \<Rightarrow> s\<lparr>osm_generated := g\<rparr> | shp \<Rightarrow> s\<lparr>shp_generated := g\<rparr>)"

text \<open>
  Each \<open>store_*\<close> runs its closure in the loop and takes the handle of the deque's last
  element afterwards.
\<close>

definition with_handle ::
  "(OSMStore \<Rightarrow> handle_t) \<Rightarrow> ((error \<times> OSMStore) + (unit \<times> OSMStore)) option
     \<Rightarrow> ((error \<times> OSMStore) + (handle_t \<times> OSMStore)) option" where
  "with_handle back r =
     (case r of
        None \<Rightarrow> None
      | Some (Inl e) \<Rightarrow> Some (Inl e)
      | Some (Inr (u, s')) \<Rightarrow> Some (Inr (back s', s')))"

definition store_point_func ::
  "(OSMStore \<Rightarrow> bool) \<Rightarrow> which_generated \<Rightarrow> Point \<Rightarrow> OSMStore \<Rightarrow> (error \<times> OSMStore) + (unit \<times> OSMStore)" where
  "store_point_func avail store input s =
     (if avail s then
        Inr ((), set_generated store
                   ((get_generated store s)
                      \<lparr>points_store := points_store (get_generated store s) @ [(fst input, snd input)]\<rparr>) s)
      else Inl (bad_alloc, s))"

definition store_point ::
  "(OSMStore \<Rightarrow> bool) \<Rightarrow> which_generated \<Rightarrow> Point \<Rightarrow> OSMStore
     \<Rightarrow> ((error \<times> OSMStore) + (handle_t \<times> OSMStore)) option" where
  "store_point avail store input s =
     with_handle (\<lambda>s'. point_handle store (length (points_store (get_generated store s')) - 1))
       (perform_mmap_operation (store_point_func avail store input) s)"

text \<open>
  \<open>store_linestring\<close> first resizes the deque by one and then assigns the new last
  element; either step may find the arena full, the second after the first took effect.
\<close>

definition store_linestring_func ::
  "(OSMStore \<Rightarrow> bool) \<Rightarrow> which_generated \<Rightarrow> Linestring \<Rightarrow> OSMStore
     \<Rightarrow> (error \<times> OSMStore) + (unit \<times> OSMStore)" where
  "store_linestring_func avail store src s =
     (if \<not> avail s then Inl (bad_alloc, s)
      else
        let s1 = set_generated store
                   ((get_generated store s)
                      \<lparr>linestring_store := linestring_store (get_generated store s) @ [[]]\<rparr>) s
        in if \<not> avail s1 then Inl (bad_alloc, s1)
           else Inr ((), set_generated store
                           ((get_generated store s1)
                              \<lparr>linestring_store := butlast (linestring_store (get_generated store s1)) @ [src]\<rparr>)
                           s1))"

definition store_linestring ::
  "(OSMStore \<Rightarrow> bool) \<Rightarrow> which_generated \<Rightarrow> Linestring \<Rightarrow> OSMStore
     \<Rightarrow> ((error \<times> OSMStore) + (handle_t \<times> OSMStore)) option" where
  "store_linestring avail store src s =
     with_handle (\<lambda>s'. linestring_handle store (length (linestring_store (get_generated store s')) - 1))
       (perform_mmap_operation (store_linestring_func avail store src) s)"

text \<open>
  The store between the two steps of \<open>store_linestring\<close>, and the store its next attempt
  starts from after a \<open>bad_alloc\<close>: grown, and with the empty linestring of the resize
  still in the deque when it was the assignment that found no room.
\<close>

definition linestring_store_resized :: "which_generated \<Rightarrow> OSMStore \<Rightarrow> OSMStore" where
  "linestring_store_resized store s =
     set_generated store
       ((get_generated store s)\<lparr>linestring_store := linestring_store (get_generated store s) @ [[]]\<rparr>) s"

definition store_linestring_retry :: "(OSMStore \<Rightarrow> bool) \<Rightarrow> which_generated \<Rightarrow> OSMStore \<Rightarrow> OSMStore" where
  "store_linestring_retry avail store s =
     grow_reopen (if avail s then linestring_store_resized store s else s)"

text \<open>
  \<open>store_multi_polygon\<close> builds the copy in a local and pushes it last, so a throw leaves
  the deque as it was.
\<close>

definition store_multi_polygon_func ::
  "(OSMStore \<Rightarrow> bool) \<Rightarrow> which_generated \<Rightarrow> MultiPolygon \<Rightarrow> OSMStore
     \<Rightarrow> (error \<times> OSMStore) + (unit \<times> OSMStore)" where
  "store_multi_polygon_func avail store src s =
     (if avail s then
        let result = map (\<lambda>polygon. (fst polygon, snd polygon)) src
        in Inr ((), set_generated store
                      ((get_generated store s)
                         \<lparr>multi_polygon_store := multi_polygon_store (get_generated store s) @ [result]\<rparr>) s)
      else Inl (bad_alloc, s))"

definition store_multi_polygon ::
  "(OSMStore \<Rightarrow> bool) \<Rightarrow> which_generated \<Rightarrow> MultiPolygon \<Rightarrow> OSMStore
     \<Rightarrow> ((error \<times> OSMStore) + (handle_t \<times> OSMStore)) option" where
  "store_multi_polygon avail store src s =
     with_handle (\<lambda>s'. multi_polygon_handle store (length (multi_polygon_store (get_generated store s')) - 1))
       (perform_mmap_operation (store_multi_polygon_func avail store src) s)"

section \<open>Ways as geometries\<close>

text \<open>
  \<open>retrieve\<close> casts the address behind a handle. A handle that \<open>ways_insert_back\<close>
  returned names the vector stored under its way id; anything else is not a way vector.
\<close>

definition retrieve_way :: "OSMStore \<Rightarrow> handle_t \<Rightarrow> error + NodeVec" where
  "retrieve_way s handle =
     (case handle of
        way_handle i \<Rightarrow> (case ways s i of None \<Rightarrow> Inl undefined_behaviour | Some way \<Rightarrow> Inr way)
      | _ \<Rightarrow> Inl undefined_behaviour)"

text \<open>
  \<open>geom::make<Point>(ll.lon/10000000.0, ll.latp/10000000.0)\<close>. The source divides in
  double precision; the model divides in the reals.
\<close>

definition make_Point :: "LatpLon \<Rightarrow> Point" where
  "make_Point ll = (real_of_int (sint (lon ll)) / 10000000, real_of_int (sint (latp ll)) / 10000000)"

fun fillPoints :: "OSMStore \<Rightarrow> Point list \<Rightarrow> NodeVec \<Rightarrow> error + Point list" where
  "fillPoints s points [] = Inr points"
| "fillPoints s points (it # rest) =
     (case nodes_at s it of
        Inl e \<Rightarrow> Inl e
      | Inr ll \<Rightarrow> fillPoints s (points @ [make_Point ll]) rest)"

definition nodeListLinestring :: "OSMStore \<Rightarrow> handle_t \<Rightarrow> error + Linestring" where
  "nodeListLinestring s handle =
     (case retrieve_way s handle of Inl e \<Rightarrow> Inl e | Inr way \<Rightarrow> fillPoints s [] way)"

definition wayIsClosed :: "OSMStore \<Rightarrow> handle_t \<Rightarrow> error + bool" where
  "wayIsClosed s handle =
     (case retrieve_way s handle of
        Inl e \<Rightarrow> Inl e
      | Inr way \<Rightarrow> Inr (way = [] \<or> hd way = last way))"

section \<open>Ring stitching\<close>

text \<open>\<open>isClosed\<close> dereferences \<open>begin\<close> and \<open>prev(end)\<close>, which an empty range does not have.\<close>

definition isClosed :: "NodeVec \<Rightarrow> error + bool" where
  "isClosed way = (if way = [] then Inl undefined_behaviour else Inr (hd way = last way))"

text \<open>
  The loop over \<open>results\<close> that looks for a chain to join the way \<open>jNodes\<close> (the source's \<open>nodes\<close>) to. It returns
  the chains and \<open>joined\<close>. \<open>front()\<close> and \<open>back()\<close> of an empty chain are undefined.
\<close>

fun mergeMultiPolygonWays_join ::
  "NodeID \<Rightarrow> NodeID \<Rightarrow> NodeVec \<Rightarrow> NodeVec list \<Rightarrow> error + (NodeVec list \<times> bool)" where
  "mergeMultiPolygonWays_join jFirst jLast jNodes [] = Inr ([], False)"
| "mergeMultiPolygonWays_join jFirst jLast jNodes (ot # rest) =
     (if ot = [] then Inl undefined_behaviour
      else
        let oFirst = hd ot; oLast = last ot in
        if jFirst = jLast then
          (case mergeMultiPolygonWays_join jFirst jLast jNodes rest of
             Inl e \<Rightarrow> Inl e
           | Inr (rest', joined) \<Rightarrow> Inr (ot # rest', joined))
        else if oLast = jFirst then Inr ((ot @ jNodes) # rest, True)
        else if oLast = jLast then Inr ((ot @ rev jNodes) # rest, True)
        else if jLast = oFirst then Inr ((jNodes @ ot) # rest, True)
        else if jFirst = oFirst then Inr ((rev jNodes @ ot) # rest, True)
        else
          (case mergeMultiPolygonWays_join jFirst jLast jNodes rest of
             Inl e \<Rightarrow> Inl e
           | Inr (rest', joined) \<Rightarrow> Inr (ot # rest', joined)))"

text \<open>
  The first \<open>for\<close> loop of one round: every way not yet done is added as a chain of its
  own when it is closed, and joined to a chain when one matches. \<open>added\<close> is the source's
  \<open>int\<close> counter, here an unbounded integer: it counts at most one per way id of the
  sequence, so it stays in the range of \<open>int\<close> for sequences of fewer than \<open>2\<^sup>3\<^sup>1\<close> ways.
\<close>

fun mergeMultiPolygonWays_pass ::
  "WayStore \<Rightarrow> WayVec \<Rightarrow> NodeVec list \<Rightarrow> (WayID \<Rightarrow> bool) \<Rightarrow> int
     \<Rightarrow> error + (NodeVec list \<times> (WayID \<Rightarrow> bool) \<times> int)" where
  "mergeMultiPolygonWays_pass ws [] results done added = Inr (results, done, added)"
| "mergeMultiPolygonWays_pass ws (it # its) results done added =
     (if done it then mergeMultiPolygonWays_pass ws its results done added
      else
        case WayStore_at ws it of
          Inl e \<Rightarrow> Inl e
        | Inr way \<Rightarrow>
            (case isClosed way of
               Inl e \<Rightarrow> Inl e
             | Inr wayClosed \<Rightarrow>
                 if wayClosed then
                   mergeMultiPolygonWays_pass ws its (results @ [way]) (done(it := True)) (added + 1)
                 else
                   (case mergeMultiPolygonWays_join (hd way) (last way) way results of
                      Inl e \<Rightarrow> Inl e
                    | Inr (results', joined) \<Rightarrow>
                        if joined then
                          mergeMultiPolygonWays_pass ws its results' (done(it := True)) (added + 1)
                        else mergeMultiPolygonWays_pass ws its results' done added)))"

text \<open>The second loop, run when the first added nothing: the first way not yet done.\<close>

fun mergeMultiPolygonWays_seed ::
  "WayStore \<Rightarrow> WayVec \<Rightarrow> NodeVec list \<Rightarrow> (WayID \<Rightarrow> bool) \<Rightarrow> int
     \<Rightarrow> error + (NodeVec list \<times> (WayID \<Rightarrow> bool) \<times> int)" where
  "mergeMultiPolygonWays_seed ws [] results done added = Inr (results, done, added)"
| "mergeMultiPolygonWays_seed ws (it # its) results done added =
     (if done it then mergeMultiPolygonWays_seed ws its results done added
      else
        case WayStore_at ws it of
          Inl e \<Rightarrow> Inl e
        | Inr way \<Rightarrow> Inr (results @ [way], done(it := True), added + 1))"

text \<open>One round of the \<open>do\<close> loop, up to its \<open>while\<close> test.\<close>

definition mergeMultiPolygonWays_round ::
  "WayStore \<Rightarrow> WayVec \<Rightarrow> NodeVec list \<Rightarrow> (WayID \<Rightarrow> bool)
     \<Rightarrow> error + (NodeVec list \<times> (WayID \<Rightarrow> bool) \<times> int)" where
  "mergeMultiPolygonWays_round ws its results done =
     (case mergeMultiPolygonWays_pass ws its results done 0 of
        Inl e \<Rightarrow> Inl e
      | Inr (results1, done1, added) \<Rightarrow>
          if added = 0 then mergeMultiPolygonWays_seed ws its results1 done1 added
          else Inr (results1, done1, added))"

partial_function (option) mergeMultiPolygonWays ::
  "WayStore \<Rightarrow> WayVec \<Rightarrow> NodeVec list \<Rightarrow> (WayID \<Rightarrow> bool)
     \<Rightarrow> (error + (NodeVec list \<times> (WayID \<Rightarrow> bool))) option" where
  "mergeMultiPolygonWays ws its results done =
     (case mergeMultiPolygonWays_round ws its results done of
        Inl e \<Rightarrow> Some (Inl e)
      | Inr (results', done', added) \<Rightarrow>
          if added > 0 then mergeMultiPolygonWays ws its results' done'
          else Some (Inr (results', done')))"

text \<open>
  The first stage of \<open>wayListMultiPolygon\<close>: the outer and the inner chains, stitched with
  one shared \<open>done\<close> map that starts empty. The later stages (filling the rings with
  points, \<open>geom::within\<close>, \<open>geom::correct\<close>) belong to Boost.Geometry.
\<close>

definition no_way_done :: "WayID \<Rightarrow> bool" where
  "no_way_done = (\<lambda>w. False)"

definition wayListMultiPolygon_chains ::
  "WayStore \<Rightarrow> WayVec \<Rightarrow> WayVec \<Rightarrow> (error + (NodeVec list \<times> NodeVec list)) option" where
  "wayListMultiPolygon_chains ws outer inner =
     (if outer = [] then Some (Inr ([], []))
      else
        case mergeMultiPolygonWays ws outer [] no_way_done of
          None \<Rightarrow> None
        | Some (Inl e) \<Rightarrow> Some (Inl e)
        | Some (Inr (outers, done)) \<Rightarrow>
            (case mergeMultiPolygonWays ws inner [] done of
               None \<Rightarrow> None
             | Some (Inl e) \<Rightarrow> Some (Inl e)
             | Some (Inr (inners, done')) \<Rightarrow> Some (Inr (outers, inners))))"

section \<open>Construction\<close>

text \<open>
  The base constructor creates the file with \<open>init_map_size\<close> bytes; \<open>reopen()\<close> then
  constructs the named containers, all empty. \<open>nodeStore\<close> is the empty node store of
  the chosen variant, \<open>Compact []\<close> or \<open>Sparse Map.empty\<close>.
\<close>

definition generated_empty :: generated where
  "generated_empty = \<lparr>points_store = [], linestring_store = [], multi_polygon_store = []\<rparr>"

definition OSMStore_created :: "NodeStoreT \<Rightarrow> OSMStore" where
  "OSMStore_created nodeStore =
     \<lparr>nodes = nodeStore, ways = Map.empty, relations = Map.empty,
      osm_generated = generated_empty, shp_generated = generated_empty,
      map_size = init_map_size, file_size = unat init_map_size\<rparr>"

text \<open>
  The closure of the \<open>OSMStoreImpl\<close> constructor: \<open>nodes.reserve\<close>, then
  \<open>ways.reserve\<close>. Reserving buckets of a hash map changes no content.
\<close>

definition OSMStoreImpl_func ::
  "nat \<Rightarrow> (OSMStore \<Rightarrow> bool) \<Rightarrow> 32 word \<Rightarrow> 32 word \<Rightarrow> OSMStore
     \<Rightarrow> (error \<times> OSMStore) + (unit \<times> OSMStore)" where
  "OSMStoreImpl_func max_size avail osm_store_nodes osm_store_ways s =
     (case nodes s of
        Compact v \<Rightarrow>
          (case NodeStoreCompact_reserve max_size v osm_store_nodes of
             Inl e \<Rightarrow> Inl (e, s)
           | Inr v' \<Rightarrow>
               if \<not> avail s then Inl (bad_alloc, s)
               else
                 let s1 = s\<lparr>nodes := Compact v'\<rparr> in
                 if \<not> avail s1 then Inl (bad_alloc, s1) else Inr ((), s1))
      | Sparse m \<Rightarrow>
          if \<not> avail s then Inl (bad_alloc, s) else Inr ((), s))"

definition OSMStoreImpl ::
  "nat \<Rightarrow> (OSMStore \<Rightarrow> bool) \<Rightarrow> NodeStoreT \<Rightarrow> 32 word \<Rightarrow> 32 word
     \<Rightarrow> ((error \<times> OSMStore) + (unit \<times> OSMStore)) option" where
  "OSMStoreImpl max_size avail nodeStore osm_store_nodes osm_store_ways =
     perform_mmap_operation (OSMStoreImpl_func max_size avail osm_store_nodes osm_store_ways)
       (OSMStore_created nodeStore)"

section \<open>Sequences of inserts and example stores\<close>

text \<open>
  The ingestion calls, to speak about a run of them. \<open>apply_insert\<close> is the store after
  one call that returned normally; \<open>apply_inserts\<close> runs a sequence, and is \<open>None\<close> as
  soon as a call throws or does not return.
\<close>

datatype insert_op =
    insert_node NodeID LatpLon
  | insert_way WayID NodeVec
  | insert_relation WayID WayVec WayVec

definition returned :: "((error \<times> OSMStore) + ('a \<times> OSMStore)) option \<Rightarrow> OSMStore option" where
  "returned r = (case r of Some (Inr (x, s')) \<Rightarrow> Some s' | _ \<Rightarrow> None)"

fun apply_insert :: "(OSMStore \<Rightarrow> bool) \<Rightarrow> insert_op \<Rightarrow> OSMStore \<Rightarrow> OSMStore option" where
  "apply_insert avail (insert_node i coord) s = returned (nodes_insert_back avail i coord s)"
| "apply_insert avail (insert_way i nodeVec) s = returned (ways_insert_back avail i nodeVec s)"
| "apply_insert avail (insert_relation i outerWayVec innerWayVec) s =
     returned (relations_insert_front avail i outerWayVec innerWayVec s)"

fun apply_inserts :: "(OSMStore \<Rightarrow> bool) \<Rightarrow> insert_op list \<Rightarrow> OSMStore \<Rightarrow> OSMStore option" where
  "apply_inserts avail [] s = Some s"
| "apply_inserts avail (op # ops) s =
     (case apply_insert avail op s of None \<Rightarrow> None | Some s' \<Rightarrow> apply_inserts avail ops s')"

text \<open>Two arenas for the examples: one that always has room, one that has room once grown.\<close>

definition always_room :: "OSMStore \<Rightarrow> bool" where
  "always_room s = True"

definition room_when_grown :: "OSMStore \<Rightarrow> bool" where
  "room_when_grown s = (init_map_size < map_size s)"

definition coord_a :: LatpLon where
  "coord_a = \<lparr>latp = 10, lon = 20\<rparr>"

definition coord_b :: LatpLon where
  "coord_b = \<lparr>latp = 30, lon = 40\<rparr>"

text \<open>A compact store with four slots, and an empty sparse one.\<close>

definition compact_store :: OSMStore where
  "compact_store =
     OSMStore_created (Compact [LatpLon_zero, LatpLon_zero, LatpLon_zero, LatpLon_zero])"

definition sparse_store :: OSMStore where
  "sparse_store = OSMStore_created (Sparse Map.empty)"

text \<open>The compact store with way 5 stored, and with coordinates for the nodes 1 and 2.\<close>

definition one_way_store :: OSMStore where
  "one_way_store = compact_store\<lparr>ways := [5 \<mapsto> [1, 2]]\<rparr>"

definition two_node_store :: OSMStore where
  "two_node_store = compact_store\<lparr>nodes := Compact [LatpLon_zero, coord_a, coord_b, LatpLon_zero]\<rparr>"

text \<open>
  Way stores for the stitching examples: the two open ways 200 and 201 that close a ring
  together, and a closed way 10 with an open way 11 that starts at its end node.
\<close>

definition stitch_ways :: WayStore where
  "stitch_ways = [200 \<mapsto> [1, 2, 3], 201 \<mapsto> [3, 4, 1]]"

definition closed_ways :: WayStore where
  "closed_ways = [10 \<mapsto> [1, 2, 1], 11 \<mapsto> [1, 5]]"

text \<open>A way store that holds way 6 with no nodes.\<close>

definition empty_way_ways :: WayStore where
  "empty_way_ways = [6 \<mapsto> []]"

section \<open>The retry loop returns from the first attempt that is not out of space\<close>

lemma returns_at_iff:
  "returns_at func k s \<longleftrightarrow>
     (\<forall>j<k. caught (func (attempt_state func j s))) \<and> \<not> caught (func (attempt_state func k s))"
proof (induction k arbitrary: s)
  case 0
  show ?case by simp
next
  case (Suc k)
  show ?case by (simp only: returns_at.simps Suc.IH All_less_Suc2 attempt_state.simps conj_assoc)
qed

lemma perform_returns:
  assumes "\<not> caught (func s)"
  shows "perform_mmap_operation func s = Some (func s)"
  using assms by (subst perform_mmap_operation.simps) (auto simp: caught_def split: sum.splits)

lemma perform_retries:
  assumes "caught (func s)"
  shows "perform_mmap_operation func s = perform_mmap_operation func (next_attempt func s)"
  using assms by (subst perform_mmap_operation.simps) (auto simp: caught_def next_attempt_def split: sum.splits)

lemma perform_returns_at:
  assumes "returns_at func k s"
  shows "perform_mmap_operation func s = Some (func (attempt_state func k s))"
  using assms
proof (induction k arbitrary: s)
  case 0
  then show ?case by (simp add: perform_returns)
next
  case (Suc k)
  then have c: "caught (func s)" and r: "returns_at func k (next_attempt func s)" by simp_all
  show ?case using perform_retries [of func s] c Suc.IH [OF r] by simp
qed

lemma perform_Some_returns_at:
  assumes "perform_mmap_operation func s = Some r"
  shows "\<exists>k. returns_at func k s \<and> r = func (attempt_state func k s)"
proof (rule perform_mmap_operation.raw_induct
    [where P = "\<lambda>func s r. \<exists>k. returns_at func k s \<and> r = func (attempt_state func k s)"
       and func = func and s = s and y = r], goal_cases)
  case 2
  show ?case by (rule assms)
next
  case (1 perform func s r)
  show ?case
  proof (cases "caught (func s)")
    case False
    with 1(2) have "r = func s" by (auto simp: caught_def split: sum.splits prod.splits if_splits)
    with False have "returns_at func 0 s \<and> r = func (attempt_state func 0 s)" by simp
    then show ?thesis by (rule exI)
  next
    case True
    with 1(2) have "perform func (next_attempt func s) = Some r"
      by (auto simp: caught_def next_attempt_def split: sum.splits prod.splits if_splits)
    then have "\<exists>k. returns_at func k (next_attempt func s)
        \<and> r = func (attempt_state func k (next_attempt func s))"
      by (rule 1(1))
    then obtain k where
      k: "returns_at func k (next_attempt func s)" "r = func (attempt_state func k (next_attempt func s))"
      by (elim exE conjE)
    with True have "returns_at func (Suc k) s \<and> r = func (attempt_state func (Suc k) s)" by simp
    then show ?thesis by (rule exI)
  qed
qed


lemma perform_never_bad_alloc:
  "perform_mmap_operation func s \<noteq> Some (Inl (bad_alloc, s'))"
proof
  assume "perform_mmap_operation func s = Some (Inl (bad_alloc, s'))"
  from perform_Some_returns_at [OF this] obtain k where
    "returns_at func k s" "Inl (bad_alloc, s') = func (attempt_state func k s)"
    by (elim exE conjE)
  then have "\<not> caught (Inl (bad_alloc, s') :: (error \<times> OSMStore) + ('a \<times> OSMStore))"
    by (simp add: returns_at_iff)
  then show False by (simp add: caught_def)
qed

lemma perform_Some_iff:
  "perform_mmap_operation func s = Some r \<longleftrightarrow>
     (\<exists>k. (\<forall>j<k. caught (func (attempt_state func j s)))
          \<and> \<not> caught (func (attempt_state func k s)) \<and> r = func (attempt_state func k s))"
proof
  assume "perform_mmap_operation func s = Some r"
  from perform_Some_returns_at [OF this] show "\<exists>k. (\<forall>j<k. caught (func (attempt_state func j s)))
          \<and> \<not> caught (func (attempt_state func k s)) \<and> r = func (attempt_state func k s)"
    by (simp only: returns_at_iff conj_assoc)
next
  assume "\<exists>k. (\<forall>j<k. caught (func (attempt_state func j s)))
          \<and> \<not> caught (func (attempt_state func k s)) \<and> r = func (attempt_state func k s)"
  then obtain k where "returns_at func k s" "r = func (attempt_state func k s)"
    by (auto simp: returns_at_iff)
  then show "perform_mmap_operation func s = Some r"
    by (simp add: perform_returns_at)
qed

lemma perform_propagates:
  assumes "func s = Inl (e, s')" "e \<noteq> bad_alloc"
  shows "perform_mmap_operation func s = Some (Inl (e, s'))"
  using assms perform_returns [of func s] by (simp add: caught_def)

lemma perform_grows:
  assumes "func s = Inl (bad_alloc, s')"
  shows "perform_mmap_operation func s = perform_mmap_operation func (grow_reopen s')"
  using assms perform_retries [of func s] by (simp add: caught_def next_attempt_def)

lemma with_handle_never_bad_alloc:
  "with_handle back (perform_mmap_operation func s) \<noteq> Some (Inl (bad_alloc, s'))"
  using perform_never_bad_alloc [of func s s']
  by (auto simp: with_handle_def split: option.splits sum.splits prod.splits)


lemma grow_reopen_fields:
  "map_size (grow_reopen s) = 2 * map_size s"
  "file_size (grow_reopen s) = file_size s + unat (map_size s)"
  "nodes (grow_reopen s) = nodes s"
  "ways (grow_reopen s) = ways s"
  "relations (grow_reopen s) = relations s"
  "osm_generated (grow_reopen s) = osm_generated s"
  "shp_generated (grow_reopen s) = shp_generated s"
  by (simp_all add: grow_reopen_def)

text \<open>
  A closure that either succeeds or throws \<open>bad_alloc\<close>: the loop returns from the first
  store, in the sequence of grown stores, at which the closure succeeds.
\<close>

lemma grow_reopen_funpow_fields:
  "nodes ((grow_reopen ^^ k) s) = nodes s"
  "ways ((grow_reopen ^^ k) s) = ways s"
  "relations ((grow_reopen ^^ k) s) = relations s"
  "osm_generated ((grow_reopen ^^ k) s) = osm_generated s"
  "shp_generated ((grow_reopen ^^ k) s) = shp_generated s"
  by (induction k) (simp_all add: grow_reopen_fields)

lemma returns_at_retry:
  assumes form: "\<And>s. good s \<Longrightarrow> func s = (if ok s then Inr (g s) else Inl (bad_alloc, nxt s))"
    and stp: "\<And>s. grow_reopen (nxt s) = stp s"
    and step: "\<And>s. good s \<Longrightarrow> good (stp s)"
    and "good s"
  shows "(returns_at func k s \<longleftrightarrow>
            (\<forall>j<k. \<not> ok ((stp ^^ j) s)) \<and> ok ((stp ^^ k) s))
       \<and> (returns_at func k s \<longrightarrow>
            func (attempt_state func k s) = Inr (g ((stp ^^ k) s)))"
  using assms(4)
proof (induction k arbitrary: s)
  case 0
  then show ?case using form [of s] by (simp add: caught_def)
next
  case (Suc k)
  show ?case
  proof (cases "ok s")
    case True
    with Suc.prems form [of s] have "\<not> caught (func s)" by (simp add: caught_def)
    with True show ?thesis by (auto simp: All_less_Suc2)
  next
    case False
    with Suc.prems form [of s] have f: "func s = Inl (bad_alloc, nxt s)" by simp
    then have c: "caught (func s)" and n: "next_attempt func s = stp s"
      by (simp_all add: caught_def next_attempt_def stp)
    from step [OF Suc.prems] have "good (stp s)" .
    from Suc.IH [OF this] c n False show ?thesis
      by (simp add: All_less_Suc2 funpow_swap1)
  qed
qed

lemma perform_retry_iff:
  assumes form: "\<And>s. good s \<Longrightarrow> func s = (if ok s then Inr (g s) else Inl (bad_alloc, nxt s))"
    and stp: "\<And>s. grow_reopen (nxt s) = stp s"
    and step: "\<And>s. good s \<Longrightarrow> good (stp s)"
    and "good s"
  shows "perform_mmap_operation func s = Some r \<longleftrightarrow>
           (\<exists>k. (\<forall>j<k. \<not> ok ((stp ^^ j) s))
                \<and> ok ((stp ^^ k) s)
                \<and> r = Inr (g ((stp ^^ k) s)))"
proof
  assume "perform_mmap_operation func s = Some r"
  from perform_Some_returns_at [OF this] obtain k where
    k: "returns_at func k s" "r = func (attempt_state func k s)" by (elim exE conjE)
  with returns_at_retry [of good func ok g nxt stp s k, OF form stp step assms(4)]
  show "\<exists>k. (\<forall>j<k. \<not> ok ((stp ^^ j) s))
                \<and> ok ((stp ^^ k) s)
                \<and> r = Inr (g ((stp ^^ k) s))"
    by auto
next
  assume "\<exists>k. (\<forall>j<k. \<not> ok ((stp ^^ j) s))
                \<and> ok ((stp ^^ k) s)
                \<and> r = Inr (g ((stp ^^ k) s))"
  then obtain k where k: "\<forall>j<k. \<not> ok ((stp ^^ j) s)"
    "ok ((stp ^^ k) s)" "r = Inr (g ((stp ^^ k) s))"
    by blast
  with returns_at_retry [of good func ok g nxt stp s k, OF form stp step assms(4)]
  have "returns_at func k s" "func (attempt_state func k s) = r" by auto
  with perform_returns_at [of func k s] show "perform_mmap_operation func s = Some r" by simp
qed

lemma generated_simps:
  "get_generated store (set_generated store g s) = g"
  "set_generated store g (set_generated store g' s) = set_generated store g s"
  "get_generated store (grow_reopen s) = get_generated store s"
  "set_generated store g (grow_reopen s) = grow_reopen (set_generated store g s)"
  by (cases store; simp add: get_generated_def set_generated_def grow_reopen_def)+

lemma get_generated_funpow:
  "get_generated store ((grow_reopen ^^ k) s) = get_generated store s"
  by (induction k) (simp_all add: generated_simps)

lemma with_handle_iff:
  assumes "\<And>x. p = Some x \<longleftrightarrow> (\<exists>k. A k \<and> x = Inr ((), G k))"
  shows "with_handle back p = Some r \<longleftrightarrow> (\<exists>k. A k \<and> r = Inr (back (G k), G k))"
proof (cases p)
  case None
  with assms [of "Inr ((), undefined)"] assms show ?thesis
    by (auto simp: with_handle_def)
next
  case (Some x)
  with assms [of x] obtain k where k: "A k" "x = Inr ((), G k)" by auto
  show ?thesis
  proof
    assume "with_handle back p = Some r"
    with Some k have "r = Inr (back (G k), G k)" by (simp add: with_handle_def)
    with k show "\<exists>k. A k \<and> r = Inr (back (G k), G k)" by blast
  next
    assume "\<exists>k. A k \<and> r = Inr (back (G k), G k)"
    then obtain k' where k': "A k'" "r = Inr (back (G k'), G k')" by blast
    with assms [of "Inr ((), G k')"] Some k have "G k' = G k" by auto
    with k' Some k show "with_handle back p = Some r" by (simp add: with_handle_def)
  qed
qed

lemma ways_insert_back_iff:
  "ways_insert_back avail w nodeVec s = Some r \<longleftrightarrow>
     (\<exists>k. (\<forall>j<k. \<not> avail ((grow_reopen ^^ j) s)) \<and> avail ((grow_reopen ^^ k) s)
          \<and> r = Inr (way_handle w,
                  ((grow_reopen ^^ k) s)\<lparr>ways := fst (WayStore_insert_back (ways s) w nodeVec)\<rparr>))"
  unfolding ways_insert_back_def
  using perform_retry_iff [of "\<lambda>t. True" "ways_insert_back_func avail w nodeVec" avail
      "\<lambda>t. (way_handle w, t\<lparr>ways := fst (WayStore_insert_back (ways t) w nodeVec)\<rparr>)"
      "\<lambda>t. t" grow_reopen s r]
  by (simp add: ways_insert_back_func_def WayStore_insert_back_def grow_reopen_funpow_fields
      split: option.splits)

lemma relations_insert_front_iff:
  "relations_insert_front avail w outerWayVec innerWayVec s = Some r \<longleftrightarrow>
     (\<exists>k. (\<forall>j<k. \<not> avail ((grow_reopen ^^ j) s)) \<and> avail ((grow_reopen ^^ k) s)
          \<and> r = Inr (relation_handle w,
                  ((grow_reopen ^^ k) s)
                    \<lparr>relations := fst (RelationStore_insert_front (relations s) w outerWayVec innerWayVec)\<rparr>))"
  unfolding relations_insert_front_def
  using perform_retry_iff [of "\<lambda>t. True" "relations_insert_front_func avail w outerWayVec innerWayVec" avail
      "\<lambda>t. (relation_handle w,
             t\<lparr>relations := fst (RelationStore_insert_front (relations t) w outerWayVec innerWayVec)\<rparr>)"
      "\<lambda>t. t" grow_reopen s r]
  by (simp add: relations_insert_front_func_def RelationStore_insert_front_def grow_reopen_funpow_fields
      split: option.splits)

lemma nodes_insert_back_compact:
  assumes "nodes s = Compact v"
  shows "nodes_insert_back avail i coord s =
     Some (if unat i \<ge> length v then Inl (FailedToStoreNode i, s)
           else Inr ((), s\<lparr>nodes := Compact (v[unat i := coord])\<rparr>))"
  unfolding nodes_insert_back_def
  using assms perform_returns [of "impl_nodes_insert_back avail i coord" s]
  by (simp add: caught_def impl_nodes_insert_back_def NodeStoreCompact_insert_back_def)

lemma nodes_insert_back_sparse_iff:
  assumes "nodes s = Sparse m"
  shows "nodes_insert_back avail i coord s = Some r \<longleftrightarrow>
     (\<exists>k. (\<forall>j<k. \<not> avail ((grow_reopen ^^ j) s)) \<and> avail ((grow_reopen ^^ k) s)
          \<and> r = Inr ((), ((grow_reopen ^^ k) s)\<lparr>nodes := Sparse (NodeStore_insert_back m i coord)\<rparr>))"
  unfolding nodes_insert_back_def
  using assms perform_retry_iff [of "\<lambda>t. nodes t = Sparse m" "impl_nodes_insert_back avail i coord" avail
      "\<lambda>t. ((), t\<lparr>nodes := Sparse (NodeStore_insert_back m i coord)\<rparr>)"
      "\<lambda>t. t" grow_reopen s r]
  by (simp add: impl_nodes_insert_back_def grow_reopen_fields)

lemma store_point_iff:
  "store_point avail store pt s = Some r \<longleftrightarrow>
     (\<exists>k. (\<forall>j<k. \<not> avail ((grow_reopen ^^ j) s)) \<and> avail ((grow_reopen ^^ k) s)
          \<and> r = Inr (point_handle store (length (points_store (get_generated store s))),
                  set_generated store
                    ((get_generated store s)
                       \<lparr>points_store := points_store (get_generated store s) @ [pt]\<rparr>)
                    ((grow_reopen ^^ k) s)))"
proof -
  let ?G = "\<lambda>k. set_generated store
                    ((get_generated store s)
                       \<lparr>points_store := points_store (get_generated store s) @ [pt]\<rparr>)
                    ((grow_reopen ^^ k) s)"
  have "\<And>x. perform_mmap_operation (store_point_func avail store pt) s = Some x \<longleftrightarrow>
      (\<exists>k. ((\<forall>j<k. \<not> avail ((grow_reopen ^^ j) s)) \<and> avail ((grow_reopen ^^ k) s))
           \<and> x = Inr ((), ?G k))"
    using perform_retry_iff [of "\<lambda>t. True" "store_point_func avail store pt" avail
      "\<lambda>t. ((), set_generated store
                    ((get_generated store t)
                       \<lparr>points_store := points_store (get_generated store t) @ [pt]\<rparr>) t)"
      "\<lambda>t. t" grow_reopen s]
    by (simp add: store_point_func_def get_generated_funpow)
  from with_handle_iff [of "perform_mmap_operation (store_point_func avail store pt) s"
      "\<lambda>k. (\<forall>j<k. \<not> avail ((grow_reopen ^^ j) s)) \<and> avail ((grow_reopen ^^ k) s)" ?G, OF this]
  show ?thesis unfolding store_point_def by (simp add: generated_simps)
qed

lemma store_multi_polygon_iff:
  "store_multi_polygon avail store mp s = Some r \<longleftrightarrow>
     (\<exists>k. (\<forall>j<k. \<not> avail ((grow_reopen ^^ j) s)) \<and> avail ((grow_reopen ^^ k) s)
          \<and> r = Inr (multi_polygon_handle store (length (multi_polygon_store (get_generated store s))),
                  set_generated store
                    ((get_generated store s)
                       \<lparr>multi_polygon_store := multi_polygon_store (get_generated store s) @ [mp]\<rparr>)
                    ((grow_reopen ^^ k) s)))"
proof -
  let ?G = "\<lambda>k. set_generated store
                    ((get_generated store s)
                       \<lparr>multi_polygon_store := multi_polygon_store (get_generated store s) @ [mp]\<rparr>)
                    ((grow_reopen ^^ k) s)"
  have "\<And>x. perform_mmap_operation (store_multi_polygon_func avail store mp) s = Some x \<longleftrightarrow>
      (\<exists>k. ((\<forall>j<k. \<not> avail ((grow_reopen ^^ j) s)) \<and> avail ((grow_reopen ^^ k) s))
           \<and> x = Inr ((), ?G k))"
    using perform_retry_iff [of "\<lambda>t. True" "store_multi_polygon_func avail store mp" avail
      "\<lambda>t. ((), set_generated store
                    ((get_generated store t)
                       \<lparr>multi_polygon_store := multi_polygon_store (get_generated store t) @ [mp]\<rparr>) t)"
      "\<lambda>t. t" grow_reopen s]
    by (simp add: store_multi_polygon_func_def get_generated_funpow)
  from with_handle_iff [of "perform_mmap_operation (store_multi_polygon_func avail store mp) s"
      "\<lambda>k. (\<forall>j<k. \<not> avail ((grow_reopen ^^ j) s)) \<and> avail ((grow_reopen ^^ k) s)" ?G, OF this]
  show ?thesis unfolding store_multi_polygon_def by (simp add: generated_simps)
qed

lemma store_linestring_iff:
  "store_linestring avail store ls s = Some r \<longleftrightarrow>
     (\<exists>k. (\<forall>j<k. \<not> (avail ((store_linestring_retry avail store ^^ j) s)
                     \<and> avail (linestring_store_resized store ((store_linestring_retry avail store ^^ j) s))))
          \<and> avail ((store_linestring_retry avail store ^^ k) s)
          \<and> avail (linestring_store_resized store ((store_linestring_retry avail store ^^ k) s))
          \<and> r = Inr (linestring_handle store
                    (length (linestring_store
                       (get_generated store ((store_linestring_retry avail store ^^ k) s)))),
                  set_generated store
                    ((get_generated store ((store_linestring_retry avail store ^^ k) s))
                       \<lparr>linestring_store :=
                          linestring_store (get_generated store ((store_linestring_retry avail store ^^ k) s))
                          @ [ls]\<rparr>)
                    ((store_linestring_retry avail store ^^ k) s)))"
proof -
  let ?T = "\<lambda>k. (store_linestring_retry avail store ^^ k) s"
  let ?G = "\<lambda>k. set_generated store
                    ((get_generated store (?T k))
                       \<lparr>linestring_store := linestring_store (get_generated store (?T k)) @ [ls]\<rparr>)
                    (?T k)"
  let ?A = "\<lambda>k. (\<forall>j<k. \<not> (avail (?T j) \<and> avail (linestring_store_resized store (?T j))))
               \<and> avail (?T k) \<and> avail (linestring_store_resized store (?T k))"
  have "\<And>x. perform_mmap_operation (store_linestring_func avail store ls) s = Some x \<longleftrightarrow>
      (\<exists>k. ?A k \<and> x = Inr ((), ?G k))"
    using perform_retry_iff [of "\<lambda>t. True" "store_linestring_func avail store ls"
      "\<lambda>t. avail t \<and> avail (linestring_store_resized store t)"
      "\<lambda>t. ((), set_generated store
                    ((get_generated store t)
                       \<lparr>linestring_store := linestring_store (get_generated store t) @ [ls]\<rparr>) t)"
      "\<lambda>t. if avail t then linestring_store_resized store t else t"
      "store_linestring_retry avail store" s]
    by (simp add: store_linestring_func_def linestring_store_resized_def store_linestring_retry_def
        generated_simps Let_def conj_assoc)
  from with_handle_iff [of "perform_mmap_operation (store_linestring_func avail store ls) s" ?A ?G, OF this]
  show ?thesis unfolding store_linestring_def by (simp add: generated_simps conj_assoc)
qed

text \<open>
  Claim C7. Every mutating operation of the store (\<open>nodes_insert_back\<close>,
  \<open>ways_insert_back\<close>, \<open>relations_insert_front\<close>, \<open>store_point\<close>,
  \<open>store_linestring\<close>, \<open>store_multi_polygon\<close>) runs its closure in
  \<open>perform_mmap_operation\<close>. The loop returns exactly from the first attempt that does
  not throw \<open>bad_alloc\<close>, with what that attempt returned or threw; so \<open>bad_alloc\<close> never
  reaches the caller, any other exception does, and the loop runs on while every attempt
  throws \<open>bad_alloc\<close>. Each caught \<open>bad_alloc\<close> grows the file by \<open>map_size\<close> bytes
  (its own length, while \<open>map_size\<close> is that length), doubles \<open>map_size\<close>, and leaves
  the contents of all containers as they are.

  For each of the six operations this says what it returns and when. An operation returns
  exactly when the arena has room after some number \<open>k\<close> of growths, with none before;
  it then returns its handle and the store grown \<open>k\<close> times with the entity stored. Into
  the vector node store \<open>nodes_insert_back\<close> allocates nothing: it returns at once, with
  the out-of-range failure passed on or the slot written. \<open>store_linestring\<close> allocates
  twice, and an attempt whose second allocation fails leaves the empty linestring of its
  resize behind before the next attempt.
\<close>

theorem perform_mmap_operation_retry:
  "(perform_mmap_operation func s = Some r \<longleftrightarrow>
      (\<exists>k. (\<forall>j<k. caught (func (attempt_state func j s)))
           \<and> \<not> caught (func (attempt_state func k s)) \<and> r = func (attempt_state func k s)))
   \<and> perform_mmap_operation func s \<noteq> Some (Inl (bad_alloc, t))
   \<and> (func s = Inl (e, s') \<and> e \<noteq> bad_alloc \<longrightarrow> perform_mmap_operation func s = Some (Inl (e, s')))
   \<and> (func s = Inl (bad_alloc, s') \<longrightarrow>
        perform_mmap_operation func s = perform_mmap_operation func (grow_reopen s')
        \<and> map_size (grow_reopen s') = 2 * map_size s'
        \<and> file_size (grow_reopen s') = file_size s' + unat (map_size s')
        \<and> (file_size s' = unat (map_size s') \<longrightarrow> file_size (grow_reopen s') = 2 * file_size s')
        \<and> nodes (grow_reopen s') = nodes s' \<and> ways (grow_reopen s') = ways s'
        \<and> relations (grow_reopen s') = relations s'
        \<and> osm_generated (grow_reopen s') = osm_generated s'
        \<and> shp_generated (grow_reopen s') = shp_generated s')
   \<and> nodes_insert_back avail i coord s \<noteq> Some (Inl (bad_alloc, t))
   \<and> ways_insert_back avail w nodeVec s \<noteq> Some (Inl (bad_alloc, t))
   \<and> relations_insert_front avail w outerWayVec innerWayVec s \<noteq> Some (Inl (bad_alloc, t))
   \<and> store_point avail store pt s \<noteq> Some (Inl (bad_alloc, t))
   \<and> store_linestring avail store ls s \<noteq> Some (Inl (bad_alloc, t))
   \<and> store_multi_polygon avail store mp s \<noteq> Some (Inl (bad_alloc, t))
   \<and> (nodes s = Compact v \<longrightarrow>
        nodes_insert_back avail i coord s =
          Some (if unat i \<ge> length v then Inl (FailedToStoreNode i, s)
                else Inr ((), s\<lparr>nodes := Compact (v[unat i := coord])\<rparr>)))
   \<and> (nodes s = Sparse m \<longrightarrow>
        (nodes_insert_back avail i coord s = Some rn \<longleftrightarrow>
           (\<exists>k. (\<forall>j<k. \<not> avail ((grow_reopen ^^ j) s)) \<and> avail ((grow_reopen ^^ k) s)
                \<and> rn = Inr ((), ((grow_reopen ^^ k) s)
                                   \<lparr>nodes := Sparse (NodeStore_insert_back m i coord)\<rparr>))))
   \<and> (ways_insert_back avail w nodeVec s = Some rw \<longleftrightarrow>
        (\<exists>k. (\<forall>j<k. \<not> avail ((grow_reopen ^^ j) s)) \<and> avail ((grow_reopen ^^ k) s)
             \<and> rw = Inr (way_handle w,
                     ((grow_reopen ^^ k) s)\<lparr>ways := fst (WayStore_insert_back (ways s) w nodeVec)\<rparr>)))
   \<and> (relations_insert_front avail w outerWayVec innerWayVec s = Some rr \<longleftrightarrow>
        (\<exists>k. (\<forall>j<k. \<not> avail ((grow_reopen ^^ j) s)) \<and> avail ((grow_reopen ^^ k) s)
             \<and> rr = Inr (relation_handle w,
                     ((grow_reopen ^^ k) s)
                       \<lparr>relations :=
                          fst (RelationStore_insert_front (relations s) w outerWayVec innerWayVec)\<rparr>)))
   \<and> (store_point avail store pt s = Some rp \<longleftrightarrow>
        (\<exists>k. (\<forall>j<k. \<not> avail ((grow_reopen ^^ j) s)) \<and> avail ((grow_reopen ^^ k) s)
             \<and> rp = Inr (point_handle store (length (points_store (get_generated store s))),
                     set_generated store
                       ((get_generated store s)
                          \<lparr>points_store := points_store (get_generated store s) @ [pt]\<rparr>)
                       ((grow_reopen ^^ k) s))))
   \<and> (store_linestring avail store ls s = Some rl \<longleftrightarrow>
        (\<exists>k. (\<forall>j<k. \<not> (avail ((store_linestring_retry avail store ^^ j) s)
                        \<and> avail (linestring_store_resized store
                                   ((store_linestring_retry avail store ^^ j) s))))
             \<and> avail ((store_linestring_retry avail store ^^ k) s)
             \<and> avail (linestring_store_resized store ((store_linestring_retry avail store ^^ k) s))
             \<and> rl = Inr (linestring_handle store
                       (length (linestring_store
                          (get_generated store ((store_linestring_retry avail store ^^ k) s)))),
                     set_generated store
                       ((get_generated store ((store_linestring_retry avail store ^^ k) s))
                          \<lparr>linestring_store :=
                             linestring_store
                               (get_generated store ((store_linestring_retry avail store ^^ k) s))
                             @ [ls]\<rparr>)
                       ((store_linestring_retry avail store ^^ k) s))))
   \<and> (store_multi_polygon avail store mp s = Some rm \<longleftrightarrow>
        (\<exists>k. (\<forall>j<k. \<not> avail ((grow_reopen ^^ j) s)) \<and> avail ((grow_reopen ^^ k) s)
             \<and> rm = Inr (multi_polygon_handle store
                       (length (multi_polygon_store (get_generated store s))),
                     set_generated store
                       ((get_generated store s)
                          \<lparr>multi_polygon_store := multi_polygon_store (get_generated store s) @ [mp]\<rparr>)
                       ((grow_reopen ^^ k) s))))"
proof (intro conjI)
  show "perform_mmap_operation func s = Some r \<longleftrightarrow>
      (\<exists>k. (\<forall>j<k. caught (func (attempt_state func j s)))
           \<and> \<not> caught (func (attempt_state func k s)) \<and> r = func (attempt_state func k s))"
    by (rule perform_Some_iff)
  show "perform_mmap_operation func s \<noteq> Some (Inl (bad_alloc, t))"
    by (rule perform_never_bad_alloc)
  show "func s = Inl (e, s') \<and> e \<noteq> bad_alloc \<longrightarrow> perform_mmap_operation func s = Some (Inl (e, s'))"
    by (simp add: perform_propagates)
  show "func s = Inl (bad_alloc, s') \<longrightarrow>
        perform_mmap_operation func s = perform_mmap_operation func (grow_reopen s')
        \<and> map_size (grow_reopen s') = 2 * map_size s'
        \<and> file_size (grow_reopen s') = file_size s' + unat (map_size s')
        \<and> (file_size s' = unat (map_size s') \<longrightarrow> file_size (grow_reopen s') = 2 * file_size s')
        \<and> nodes (grow_reopen s') = nodes s' \<and> ways (grow_reopen s') = ways s'
        \<and> relations (grow_reopen s') = relations s'
        \<and> osm_generated (grow_reopen s') = osm_generated s'
        \<and> shp_generated (grow_reopen s') = shp_generated s'"
    using perform_grows [of func s s'] by (simp add: grow_reopen_fields)
  show "nodes_insert_back avail i coord s \<noteq> Some (Inl (bad_alloc, t))"
    unfolding nodes_insert_back_def by (rule perform_never_bad_alloc)
  show "ways_insert_back avail w nodeVec s \<noteq> Some (Inl (bad_alloc, t))"
    unfolding ways_insert_back_def by (rule perform_never_bad_alloc)
  show "relations_insert_front avail w outerWayVec innerWayVec s \<noteq> Some (Inl (bad_alloc, t))"
    unfolding relations_insert_front_def by (rule perform_never_bad_alloc)
  show "store_point avail store pt s \<noteq> Some (Inl (bad_alloc, t))"
    unfolding store_point_def by (rule with_handle_never_bad_alloc)
  show "store_linestring avail store ls s \<noteq> Some (Inl (bad_alloc, t))"
    unfolding store_linestring_def by (rule with_handle_never_bad_alloc)
  show "store_multi_polygon avail store mp s \<noteq> Some (Inl (bad_alloc, t))"
    unfolding store_multi_polygon_def by (rule with_handle_never_bad_alloc)
  show "nodes s = Compact v \<longrightarrow>
        nodes_insert_back avail i coord s =
          Some (if unat i \<ge> length v then Inl (FailedToStoreNode i, s)
                else Inr ((), s\<lparr>nodes := Compact (v[unat i := coord])\<rparr>))"
    using nodes_insert_back_compact [of s v avail i coord] by blast
  show "nodes s = Sparse m \<longrightarrow>
        (nodes_insert_back avail i coord s = Some rn \<longleftrightarrow>
           (\<exists>k. (\<forall>j<k. \<not> avail ((grow_reopen ^^ j) s)) \<and> avail ((grow_reopen ^^ k) s)
                \<and> rn = Inr ((), ((grow_reopen ^^ k) s)
                                   \<lparr>nodes := Sparse (NodeStore_insert_back m i coord)\<rparr>)))"
    using nodes_insert_back_sparse_iff [of s m avail i coord rn] by blast
  show "ways_insert_back avail w nodeVec s = Some rw \<longleftrightarrow>
        (\<exists>k. (\<forall>j<k. \<not> avail ((grow_reopen ^^ j) s)) \<and> avail ((grow_reopen ^^ k) s)
             \<and> rw = Inr (way_handle w,
                     ((grow_reopen ^^ k) s)\<lparr>ways := fst (WayStore_insert_back (ways s) w nodeVec)\<rparr>))"
    by (rule ways_insert_back_iff)
  show "relations_insert_front avail w outerWayVec innerWayVec s = Some rr \<longleftrightarrow>
        (\<exists>k. (\<forall>j<k. \<not> avail ((grow_reopen ^^ j) s)) \<and> avail ((grow_reopen ^^ k) s)
             \<and> rr = Inr (relation_handle w,
                     ((grow_reopen ^^ k) s)
                       \<lparr>relations :=
                          fst (RelationStore_insert_front (relations s) w outerWayVec innerWayVec)\<rparr>))"
    by (rule relations_insert_front_iff)
  show "store_point avail store pt s = Some rp \<longleftrightarrow>
        (\<exists>k. (\<forall>j<k. \<not> avail ((grow_reopen ^^ j) s)) \<and> avail ((grow_reopen ^^ k) s)
             \<and> rp = Inr (point_handle store (length (points_store (get_generated store s))),
                     set_generated store
                       ((get_generated store s)
                          \<lparr>points_store := points_store (get_generated store s) @ [pt]\<rparr>)
                       ((grow_reopen ^^ k) s)))"
    by (rule store_point_iff)
  show "store_linestring avail store ls s = Some rl \<longleftrightarrow>
        (\<exists>k. (\<forall>j<k. \<not> (avail ((store_linestring_retry avail store ^^ j) s)
                        \<and> avail (linestring_store_resized store
                                   ((store_linestring_retry avail store ^^ j) s))))
             \<and> avail ((store_linestring_retry avail store ^^ k) s)
             \<and> avail (linestring_store_resized store ((store_linestring_retry avail store ^^ k) s))
             \<and> rl = Inr (linestring_handle store
                       (length (linestring_store
                          (get_generated store ((store_linestring_retry avail store ^^ k) s)))),
                     set_generated store
                       ((get_generated store ((store_linestring_retry avail store ^^ k) s))
                          \<lparr>linestring_store :=
                             linestring_store
                               (get_generated store ((store_linestring_retry avail store ^^ k) s))
                             @ [ls]\<rparr>)
                       ((store_linestring_retry avail store ^^ k) s)))"
    by (rule store_linestring_iff)
  show "store_multi_polygon avail store mp s = Some rm \<longleftrightarrow>
        (\<exists>k. (\<forall>j<k. \<not> avail ((grow_reopen ^^ j) s)) \<and> avail ((grow_reopen ^^ k) s)
             \<and> rm = Inr (multi_polygon_handle store
                       (length (multi_polygon_store (get_generated store s))),
                     set_generated store
                       ((get_generated store s)
                          \<lparr>multi_polygon_store := multi_polygon_store (get_generated store s) @ [mp]\<rparr>)
                       ((grow_reopen ^^ k) s)))"
    by (rule store_multi_polygon_iff)
qed

text \<open>The fields of the example stores.\<close>

lemma compact_store_fields:
  "nodes compact_store = Compact [LatpLon_zero, LatpLon_zero, LatpLon_zero, LatpLon_zero]"
  "ways compact_store = Map.empty"
  "relations compact_store = Map.empty"
  "osm_generated compact_store = generated_empty"
  "shp_generated compact_store = generated_empty"
  "map_size compact_store = 1024000000"
  "file_size compact_store = 1024000000"
  by (simp_all add: compact_store_def OSMStore_created_def init_map_size_def)

lemma room_when_grown_compact_store:
  "\<not> room_when_grown compact_store"
  "room_when_grown (grow_reopen compact_store)"
  "room_when_grown (linestring_store_resized store (grow_reopen compact_store))"
  "\<not> room_when_grown sparse_store"
  "room_when_grown (grow_reopen sparse_store)"
  by (cases store; simp add: room_when_grown_def grow_reopen_def compact_store_def sparse_store_def
      OSMStore_created_def init_map_size_def linestring_store_resized_def set_generated_def)+

text \<open>
  All six operations on an arena that has room once it has grown: each returns after one
  growth with the entity stored. Into the vector store, node 1 is written at once and
  node 9 is out of range.
\<close>

theorem perform_mmap_operation_retry_witness:
  "ways_insert_back room_when_grown 7 [1, 2] compact_store
     = Some (Inr (way_handle 7, (grow_reopen compact_store)\<lparr>ways := [7 \<mapsto> [1, 2]]\<rparr>))
   \<and> nodes_insert_back always_room 9 coord_a compact_store
     = Some (Inl (FailedToStoreNode 9, compact_store))
   \<and> map_size (grow_reopen compact_store) = 2048000000
   \<and> file_size (grow_reopen compact_store) = 2048000000
   \<and> nodes_insert_back room_when_grown 1 coord_a compact_store
     = Some (Inr ((), compact_store
          \<lparr>nodes := Compact [LatpLon_zero, coord_a, LatpLon_zero, LatpLon_zero]\<rparr>))
   \<and> nodes_insert_back room_when_grown 1 coord_a sparse_store
     = Some (Inr ((), (grow_reopen sparse_store)\<lparr>nodes := Sparse [1 \<mapsto> coord_a]\<rparr>))
   \<and> relations_insert_front room_when_grown 8 [200, 201] [] compact_store
     = Some (Inr (relation_handle 8,
          (grow_reopen compact_store)\<lparr>relations := [8 \<mapsto> ([200, 201], [])]\<rparr>))
   \<and> store_point room_when_grown osm (1, 2) compact_store
     = Some (Inr (point_handle osm 0,
          (grow_reopen compact_store)\<lparr>osm_generated := generated_empty\<lparr>points_store := [(1, 2)]\<rparr>\<rparr>))
   \<and> store_linestring room_when_grown osm [(1, 2), (3, 4)] compact_store
     = Some (Inr (linestring_handle osm 0,
          (grow_reopen compact_store)
            \<lparr>osm_generated := generated_empty\<lparr>linestring_store := [[(1, 2), (3, 4)]]\<rparr>\<rparr>))
   \<and> store_multi_polygon room_when_grown shp [([(0, 0), (1, 0), (0, 1), (0, 0)], [])] compact_store
     = Some (Inr (multi_polygon_handle shp 0,
          (grow_reopen compact_store)
            \<lparr>shp_generated :=
               generated_empty\<lparr>multi_polygon_store := [[([(0, 0), (1, 0), (0, 1), (0, 0)], [])]]\<rparr>\<rparr>))"
proof (intro conjI)
  note rest = perform_mmap_operation_retry
    [THEN conjunct2, THEN conjunct2, THEN conjunct2, THEN conjunct2, THEN conjunct2,
     THEN conjunct2, THEN conjunct2, THEN conjunct2, THEN conjunct2, THEN conjunct2]
  note compact = rest [THEN conjunct1]
  note sparse = rest [THEN conjunct2, THEN conjunct1]
  note ways = rest [THEN conjunct2, THEN conjunct2, THEN conjunct1]
  note relations = rest [THEN conjunct2, THEN conjunct2, THEN conjunct2, THEN conjunct1]
  note point = rest [THEN conjunct2, THEN conjunct2, THEN conjunct2, THEN conjunct2, THEN conjunct1]
  note linestring = rest [THEN conjunct2, THEN conjunct2, THEN conjunct2, THEN conjunct2,
      THEN conjunct2, THEN conjunct1]
  note multi_polygon = rest [THEN conjunct2, THEN conjunct2, THEN conjunct2, THEN conjunct2,
      THEN conjunct2, THEN conjunct2]
  note ev = room_when_grown_compact_store compact_store_fields grow_reopen_fields
  show "ways_insert_back room_when_grown 7 [1, 2] compact_store
     = Some (Inr (way_handle 7, (grow_reopen compact_store)\<lparr>ways := [7 \<mapsto> [1, 2]]\<rparr>))"
    by (rule ways [THEN iffD2], rule exI [where x = "Suc 0"])
       (simp add: ev WayStore_insert_back_def)
  have "impl_nodes_insert_back always_room 9 coord_a compact_store
      = Inl (FailedToStoreNode 9, compact_store)"
    by (simp add: impl_nodes_insert_back_def compact_store_fields NodeStoreCompact_insert_back_def)
  then show "nodes_insert_back always_room 9 coord_a compact_store
      = Some (Inl (FailedToStoreNode 9, compact_store))"
    using perform_mmap_operation_retry
      [of "impl_nodes_insert_back always_room 9 coord_a" compact_store _ _ "FailedToStoreNode 9" compact_store]
    unfolding nodes_insert_back_def by simp
  let ?func = "ways_insert_back_func room_when_grown 7 [1, 2]"
  have first: "?func compact_store = Inl (bad_alloc, compact_store)"
    by (simp add: ways_insert_back_func_def ev)
  show "map_size (grow_reopen compact_store) = 2048000000"
    using first perform_mmap_operation_retry [of ?func compact_store _ _ _ compact_store]
    by (simp add: compact_store_fields)
  show "file_size (grow_reopen compact_store) = 2048000000"
    using first perform_mmap_operation_retry [of ?func compact_store _ _ _ compact_store]
    by (simp add: compact_store_fields)
  show "nodes_insert_back room_when_grown 1 coord_a compact_store
     = Some (Inr ((), compact_store
          \<lparr>nodes := Compact [LatpLon_zero, coord_a, LatpLon_zero, LatpLon_zero]\<rparr>))"
    using compact [of compact_store
        "[LatpLon_zero, LatpLon_zero, LatpLon_zero, LatpLon_zero]" room_when_grown 1 coord_a]
    by (simp add: compact_store_fields)
  have "nodes sparse_store = Sparse Map.empty"
    by (simp add: sparse_store_def OSMStore_created_def)
  then show "nodes_insert_back room_when_grown 1 coord_a sparse_store
     = Some (Inr ((), (grow_reopen sparse_store)\<lparr>nodes := Sparse [1 \<mapsto> coord_a]\<rparr>))"
    by (rule sparse [THEN mp, THEN iffD2], intro exI [where x = "Suc 0"])
       (simp add: ev NodeStore_insert_back_def)
  show "relations_insert_front room_when_grown 8 [200, 201] [] compact_store
     = Some (Inr (relation_handle 8,
          (grow_reopen compact_store)\<lparr>relations := [8 \<mapsto> ([200, 201], [])]\<rparr>))"
    by (rule relations [THEN iffD2], rule exI [where x = "Suc 0"])
       (simp add: ev RelationStore_insert_front_def)
  show "store_point room_when_grown osm (1, 2) compact_store
     = Some (Inr (point_handle osm 0,
          (grow_reopen compact_store)\<lparr>osm_generated := generated_empty\<lparr>points_store := [(1, 2)]\<rparr>\<rparr>))"
    by (rule point [THEN iffD2], rule exI [where x = "Suc 0"])
       (simp add: ev get_generated_def set_generated_def generated_empty_def)
  show "store_linestring room_when_grown osm [(1, 2), (3, 4)] compact_store
     = Some (Inr (linestring_handle osm 0,
          (grow_reopen compact_store)
            \<lparr>osm_generated := generated_empty\<lparr>linestring_store := [[(1, 2), (3, 4)]]\<rparr>\<rparr>))"
    by (rule linestring [THEN iffD2], rule exI [where x = "Suc 0"])
       (simp add: ev store_linestring_retry_def get_generated_def set_generated_def
          generated_empty_def)
  show "store_multi_polygon room_when_grown shp [([(0, 0), (1, 0), (0, 1), (0, 0)], [])] compact_store
     = Some (Inr (multi_polygon_handle shp 0,
          (grow_reopen compact_store)
            \<lparr>shp_generated :=
               generated_empty\<lparr>multi_polygon_store := [[([(0, 0), (1, 0), (0, 1), (0, 0)], [])]]\<rparr>\<rparr>))"
    by (rule multi_polygon [THEN iffD2], rule exI [where x = "Suc 0"])
       (simp add: ev get_generated_def set_generated_def generated_empty_def)
qed

section \<open>What the mutating operations leave behind\<close>

lemma attempt_state_unchanged:
  assumes keep: "\<And>s s'. func s = Inl (bad_alloc, s') \<Longrightarrow> s' = s"
    and "returns_at func k s"
  shows "attempt_state func k s = (grow_reopen ^^ k) s"
  using assms(2)
proof (induction k arbitrary: s)
  case 0
  show ?case by simp
next
  case (Suc k)
  then have c: "caught (func s)" and r: "returns_at func k (next_attempt func s)" by simp_all
  from c obtain s' where s': "func s = Inl (bad_alloc, s')"
    by (auto simp: caught_def split: sum.splits prod.splits)
  with keep have "s' = s" by blast
  with s' have n: "next_attempt func s = grow_reopen s" by (simp add: next_attempt_def)
  show ?case using Suc.IH [OF r] n by (simp add: funpow_swap1)
qed

lemma perform_unchanged_on_bad_alloc:
  assumes keep: "\<And>s s'. func s = Inl (bad_alloc, s') \<Longrightarrow> s' = s"
    and "perform_mmap_operation func s = Some r"
  shows "\<exists>k. r = func ((grow_reopen ^^ k) s) \<and> \<not> caught r"
proof -
  from perform_Some_returns_at [OF assms(2)] obtain k where
    k: "returns_at func k s" "r = func (attempt_state func k s)"
    by (elim exE conjE)
  from k(1) have "\<not> caught (func (attempt_state func k s))" by (simp add: returns_at_iff)
  with k attempt_state_unchanged [of func k s, OF keep] show ?thesis by auto
qed

lemma ways_insert_back_returned:
  assumes "ways_insert_back avail i nodeVec s = Some r"
  shows "\<exists>s'. r = Inr (way_handle i, s')
           \<and> ways s' = fst (WayStore_insert_back (ways s) i nodeVec)
           \<and> nodes s' = nodes s \<and> relations s' = relations s
           \<and> osm_generated s' = osm_generated s \<and> shp_generated s' = shp_generated s"
proof -
  let ?func = "ways_insert_back_func avail i nodeVec"
  have keep: "\<And>s s'. ?func s = Inl (bad_alloc, s') \<Longrightarrow> s' = s"
    by (auto simp: ways_insert_back_func_def split: if_splits prod.splits)
  from perform_unchanged_on_bad_alloc [of ?func s r, OF keep] assms
  obtain k where k: "r = ?func ((grow_reopen ^^ k) s)" "\<not> caught r"
    unfolding ways_insert_back_def by blast
  then show ?thesis
    by (auto simp: ways_insert_back_func_def caught_def WayStore_insert_back_def
        grow_reopen_funpow_fields split: if_splits prod.splits option.splits)
qed

lemma relations_insert_front_returned:
  assumes "relations_insert_front avail i outerWayVec innerWayVec s = Some r"
  shows "\<exists>s'. r = Inr (relation_handle i, s')
           \<and> relations s' = fst (RelationStore_insert_front (relations s) i outerWayVec innerWayVec)
           \<and> nodes s' = nodes s \<and> ways s' = ways s"
proof -
  let ?func = "relations_insert_front_func avail i outerWayVec innerWayVec"
  have keep: "\<And>s s'. ?func s = Inl (bad_alloc, s') \<Longrightarrow> s' = s"
    by (auto simp: relations_insert_front_func_def split: if_splits prod.splits)
  from perform_unchanged_on_bad_alloc [of ?func s r, OF keep] assms
  obtain k where k: "r = ?func ((grow_reopen ^^ k) s)" "\<not> caught r"
    unfolding relations_insert_front_def by blast
  then show ?thesis
    by (auto simp: relations_insert_front_func_def caught_def RelationStore_insert_front_def
        grow_reopen_funpow_fields split: if_splits prod.splits option.splits)
qed

lemma nodes_insert_back_returned:
  assumes "nodes_insert_back avail i coord s = Some (Inr (u, s'))"
  shows "(case nodes s of
            Compact v \<Rightarrow> unat i < length v \<and> nodes s' = Compact (v[unat i := coord])
          | Sparse m \<Rightarrow> nodes s' = Sparse (NodeStore_insert_back m i coord))
         \<and> ways s' = ways s \<and> relations s' = relations s"
proof -
  let ?func = "impl_nodes_insert_back avail i coord"
  have keep: "\<And>s s'. ?func s = Inl (bad_alloc, s') \<Longrightarrow> s' = s"
    by (auto simp: impl_nodes_insert_back_def NodeStoreCompact_insert_back_def
        split: if_splits NodeStoreT.splits sum.splits)
  from perform_unchanged_on_bad_alloc [of ?func s "Inr (u, s')", OF keep] assms
  obtain k where k: "Inr (u, s') = ?func ((grow_reopen ^^ k) s)"
    unfolding nodes_insert_back_def by blast
  then show ?thesis
    by (auto simp: impl_nodes_insert_back_def NodeStoreCompact_insert_back_def
        grow_reopen_funpow_fields split: if_splits NodeStoreT.splits sum.splits)
qed

lemma ways_insert_back_at_once:
  assumes "avail s"
  shows "ways_insert_back avail i nodeVec s
    = Some (Inr (way_handle i, s\<lparr>ways := fst (WayStore_insert_back (ways s) i nodeVec)\<rparr>))"
  unfolding ways_insert_back_def
  using assms perform_returns [of "ways_insert_back_func avail i nodeVec" s]
  by (simp add: caught_def ways_insert_back_func_def WayStore_insert_back_def split: option.splits)

lemma ways_insert_back_returns:
  assumes "avail ((grow_reopen ^^ k) s)"
  shows "\<exists>r. ways_insert_back avail i nodeVec s = Some r"
  using assms
proof (induction k arbitrary: s)
  case 0
  then show ?case using ways_insert_back_at_once [of avail s i nodeVec] by simp
next
  case (Suc k)
  show ?case
  proof (cases "avail s")
    case True
    then show ?thesis using ways_insert_back_at_once [of avail s i nodeVec] by simp
  next
    case False
    then have f: "ways_insert_back_func avail i nodeVec s = Inl (bad_alloc, s)"
      by (simp add: ways_insert_back_func_def)
    from Suc.prems have "avail ((grow_reopen ^^ k) (grow_reopen s))"
      by (simp add: funpow_swap1)
    from Suc.IH [OF this] show ?thesis
      unfolding ways_insert_back_def
      using perform_grows [of "ways_insert_back_func avail i nodeVec" s s] f by simp
  qed
qed

lemma nodes_insert_back_at_once:
  assumes "\<not> caught (impl_nodes_insert_back avail i coord s)"
  shows "nodes_insert_back avail i coord s = Some (impl_nodes_insert_back avail i coord s)"
  unfolding nodes_insert_back_def using assms by (rule perform_returns)

lemma nodes_insert_back_always_room:
  "nodes_insert_back always_room i c s = Some (impl_nodes_insert_back always_room i c s)"
  by (rule nodes_insert_back_at_once)
    (auto simp: caught_def impl_nodes_insert_back_def always_room_def NodeStoreCompact_insert_back_def
      split: NodeStoreT.splits sum.splits prod.splits)

lemma ways_insert_back_always_room:
  "ways_insert_back always_room i nodeVec s
    = Some (Inr (way_handle i, s\<lparr>ways := fst (WayStore_insert_back (ways s) i nodeVec)\<rparr>))"
  by (rule ways_insert_back_at_once) (simp add: always_room_def)

lemma returned_Some:
  "returned r = Some s' \<longleftrightarrow> (\<exists>x. r = Some (Inr (x, s')))"
  by (auto simp: returned_def split: option.splits sum.splits)

section \<open>The example stores\<close>

lemma list_update_Cons_numeral:
  "(x # xs)[numeral k := y] = x # xs[pred_numeral k := y]"
  by (simp add: numeral_eq_Suc)

lemma replicate_numeral_Cons:
  "replicate (numeral k) x = x # replicate (pred_numeral k) x"
  by (simp add: numeral_eq_Suc)

lemma nth_Cons_numeral_pred:
  "(x # xs) ! numeral k = xs ! pred_numeral k"
  by (simp add: numeral_eq_Suc)

lemma OSMStoreImpl_compact_store:
  "OSMStoreImpl 1000 always_room (Compact []) 4 0 = Some (Inr ((), compact_store))"
proof -
  have "OSMStoreImpl_func 1000 always_room 4 0 (OSMStore_created (Compact []))
      = Inr ((), compact_store)"
    by (simp add: OSMStoreImpl_func_def NodeStoreCompact_reserve_def always_room_def
        compact_store_def OSMStore_created_def replicate_numeral_Cons)
  then show ?thesis
    unfolding OSMStoreImpl_def
    using perform_returns [of "OSMStoreImpl_func 1000 always_room 4 0" "OSMStore_created (Compact [])"]
    by (simp add: caught_def)
qed

lemma one_way_store_fields:
  "ways one_way_store = [5 \<mapsto> [1, 2]]"
  "nodes one_way_store = Compact [LatpLon_zero, LatpLon_zero, LatpLon_zero, LatpLon_zero]"
  by (simp_all add: one_way_store_def compact_store_fields)

lemma two_node_store_fields:
  "nodes two_node_store = Compact [LatpLon_zero, coord_a, coord_b, LatpLon_zero]"
  "ways two_node_store = Map.empty"
  by (simp_all add: two_node_store_def compact_store_fields)

lemma sparse_store_fields:
  "nodes sparse_store = Sparse Map.empty"
  "ways sparse_store = Map.empty"
  by (simp_all add: sparse_store_def OSMStore_created_def)

lemma sparse_insert_a:
  "nodes_insert_back always_room 1 coord_a sparse_store
     = Some (Inr ((), sparse_store\<lparr>nodes := Sparse [1 \<mapsto> coord_a]\<rparr>))"
proof -
  have "impl_nodes_insert_back always_room 1 coord_a sparse_store
      = Inr ((), sparse_store\<lparr>nodes := Sparse [1 \<mapsto> coord_a]\<rparr>)"
    by (simp add: impl_nodes_insert_back_def sparse_store_fields always_room_def
        NodeStore_insert_back_def)
  then show ?thesis
    using nodes_insert_back_at_once [of always_room 1 coord_a sparse_store]
    by (simp add: caught_def)
qed

lemma sparse_insert_b:
  "nodes_insert_back always_room 1 coord_b (sparse_store\<lparr>nodes := Sparse [1 \<mapsto> coord_a]\<rparr>)
     = Some (Inr ((), sparse_store\<lparr>nodes := Sparse [1 \<mapsto> coord_a]\<rparr>))"
proof -
  have "impl_nodes_insert_back always_room 1 coord_b (sparse_store\<lparr>nodes := Sparse [1 \<mapsto> coord_a]\<rparr>)
      = Inr ((), sparse_store\<lparr>nodes := Sparse [1 \<mapsto> coord_a]\<rparr>)"
    by (simp add: impl_nodes_insert_back_def sparse_store_fields always_room_def
        NodeStore_insert_back_def)
  then show ?thesis
    using nodes_insert_back_at_once
      [of always_room 1 coord_b "sparse_store\<lparr>nodes := Sparse [1 \<mapsto> coord_a]\<rparr>"]
    by (simp add: caught_def)
qed

lemma compact_insert_a:
  "nodes_insert_back always_room 1 coord_a compact_store
     = Some (Inr ((), compact_store\<lparr>nodes := Compact [LatpLon_zero, coord_a, LatpLon_zero, LatpLon_zero]\<rparr>))"
  by (simp add: nodes_insert_back_always_room impl_nodes_insert_back_def compact_store_fields
      NodeStoreCompact_insert_back_def)

lemma compact_insert_more:
  "apply_inserts always_room [insert_node 2 coord_b, insert_way 5 [1, 2]]
      (compact_store\<lparr>nodes := Compact [LatpLon_zero, coord_a, LatpLon_zero, LatpLon_zero]\<rparr>)
     = Some (two_node_store\<lparr>ways := [5 \<mapsto> [1, 2]]\<rparr>)"
  by (simp add: nodes_insert_back_always_room ways_insert_back_always_room returned_def
      impl_nodes_insert_back_def compact_store_fields NodeStoreCompact_insert_back_def
      WayStore_insert_back_def two_node_store_def list_update_Cons_numeral)

lemma compact_insert_again:
  "apply_inserts always_room [insert_node 1 coord_b]
      (compact_store\<lparr>nodes := Compact [LatpLon_zero, coord_a, LatpLon_zero, LatpLon_zero]\<rparr>)
     = Some (compact_store\<lparr>nodes := Compact [LatpLon_zero, coord_b, LatpLon_zero, LatpLon_zero]\<rparr>)"
  by (simp add: nodes_insert_back_always_room returned_def
      impl_nodes_insert_back_def compact_store_fields NodeStoreCompact_insert_back_def)

lemma sparse_insert_again:
  "apply_inserts always_room [insert_node 1 coord_b] (sparse_store\<lparr>nodes := Sparse [1 \<mapsto> coord_a]\<rparr>)
     = Some (sparse_store\<lparr>nodes := Sparse [1 \<mapsto> coord_a]\<rparr>)"
  by (simp add: sparse_insert_b returned_def)

section \<open>Clearing the store\<close>

text \<open>
  Claim C3, as the code has it. After \<open>clear()\<close> the way store, the relation store and
  the hash-map node store are empty and have size 0, and \<open>map_size\<close> and the length of
  the file are as before. The vector node store keeps its length: \<open>clear()\<close> overwrites
  every slot with the zero \<open>LatpLon\<close>, so its \<open>size()\<close> is still the number of reserved
  slots, and every id below that number reads as the zero \<open>LatpLon\<close>. The generated
  geometries are not touched.
\<close>

theorem clear_sizes:
  "nodes_size (nodes (clear s)) = (case nodes s of Compact v \<Rightarrow> length v | Sparse m \<Rightarrow> 0)
   \<and> WayStore_size (ways (clear s)) = 0
   \<and> RelationStore_size (relations (clear s)) = 0
   \<and> map_size (clear s) = map_size s \<and> file_size (clear s) = file_size s
   \<and> nodes (clear s) =
       (case nodes s of
          Compact v \<Rightarrow> Compact (replicate (length v) LatpLon_zero)
        | Sparse m \<Rightarrow> Sparse Map.empty)
   \<and> nodes_at (clear s) i =
       (case nodes s of
          Compact v \<Rightarrow> if unat i < length v then Inr LatpLon_zero else Inl (CouldNotFindNode i)
        | Sparse m \<Rightarrow> Inl (CouldNotFindNode i))
   \<and> ways (clear s) = Map.empty \<and> relations (clear s) = Map.empty
   \<and> osm_generated (clear s) = osm_generated s \<and> shp_generated (clear s) = shp_generated s"
  by (simp add: clear_def nodes_clear_def nodes_size_def NodeStoreCompact_clear_def
      NodeStore_clear_def NodeStoreCompact_size_def NodeStore_size_def WayStore_clear_def
      WayStore_size_def RelationStore_clear_def RelationStore_size_def map_replicate_const
      nodes_at_def impl_nodes_at_def NodeStoreCompact_at_def NodeStore_at_def
      split: NodeStoreT.splits)

text \<open>
  A compact store constructed with four reserved nodes still has \<open>size()\<close> 4 after
  \<open>clear()\<close>.
\<close>

theorem clear_compact_size_counterexample:
  "OSMStoreImpl 1000 always_room (Compact []) 4 0 = Some (Inr ((), compact_store))
   \<and> nodes_size (nodes (clear compact_store)) = 4
   \<and> nodes_size (nodes (clear compact_store)) \<noteq> 0"
  using OSMStoreImpl_compact_store
  by (simp add: clear_def nodes_clear_def nodes_size_def NodeStoreCompact_clear_def
      NodeStoreCompact_size_def compact_store_fields)

section \<open>Inserting and looking up nodes\<close>

text \<open>
  Claim C4, as the code has it. In the hash-map node store the first insert of an id wins:
  after \<open>insert_back i c1\<close> and then \<open>insert_back i c2\<close>, looking \<open>i\<close> up gives the
  value the store held for \<open>i\<close> before, and \<open>c1\<close> if it held none. It never gives
  \<open>c2\<close> because of the second insert. The same holds through \<open>nodes_insert_back\<close>.
\<close>

theorem NodeStore_first_insert_wins:
  "NodeStore_at (NodeStore_insert_back (NodeStore_insert_back m i c1) i c2) i
     = Inr (case m i of None \<Rightarrow> c1 | Some c0 \<Rightarrow> c0)
   \<and> (nodes s = Sparse m \<and> nodes_insert_back avail i c1 s = Some (Inr (u1, s1))
        \<and> nodes_insert_back avail' i c2 s1 = Some (Inr (u2, s2))
      \<longrightarrow> nodes_at s2 i = Inr (case m i of None \<Rightarrow> c1 | Some c0 \<Rightarrow> c0))"
proof (intro conjI impI)
  show store: "NodeStore_at (NodeStore_insert_back (NodeStore_insert_back m i c1) i c2) i
     = Inr (case m i of None \<Rightarrow> c1 | Some c0 \<Rightarrow> c0)"
    by (simp add: NodeStore_at_def NodeStore_insert_back_def split: option.splits)
  assume a: "nodes s = Sparse m \<and> nodes_insert_back avail i c1 s = Some (Inr (u1, s1))
        \<and> nodes_insert_back avail' i c2 s1 = Some (Inr (u2, s2))"
  then have "nodes s1 = Sparse (NodeStore_insert_back m i c1)"
    using nodes_insert_back_returned [of avail i c1 s u1 s1] by simp
  then have "nodes s2 = Sparse (NodeStore_insert_back (NodeStore_insert_back m i c1) i c2)"
    using a nodes_insert_back_returned [of avail' i c2 s1 u2 s2] by simp
  then show "nodes_at s2 i = Inr (case m i of None \<Rightarrow> c1 | Some c0 \<Rightarrow> c0)"
    using store by (simp add: nodes_at_def impl_nodes_at_def)
qed

text \<open>Inserting node 1 twice into the empty sparse store.\<close>

theorem NodeStore_first_insert_wins_witness:
  "nodes sparse_store = Sparse Map.empty
   \<and> nodes_insert_back always_room 1 coord_a sparse_store
     = Some (Inr ((), sparse_store\<lparr>nodes := Sparse [1 \<mapsto> coord_a]\<rparr>))
   \<and> nodes_insert_back always_room 1 coord_b (sparse_store\<lparr>nodes := Sparse [1 \<mapsto> coord_a]\<rparr>)
     = Some (Inr ((), sparse_store\<lparr>nodes := Sparse [1 \<mapsto> coord_a]\<rparr>))
   \<and> nodes_at (sparse_store\<lparr>nodes := Sparse [1 \<mapsto> coord_a]\<rparr>) 1 = Inr coord_a"
  using NodeStore_first_insert_wins
    [of Map.empty 1 coord_a coord_b sparse_store always_room "()"
        "sparse_store\<lparr>nodes := Sparse [1 \<mapsto> coord_a]\<rparr>" always_room "()"
        "sparse_store\<lparr>nodes := Sparse [1 \<mapsto> coord_a]\<rparr>"]
    sparse_insert_a sparse_insert_b
  by (simp add: sparse_store_fields)

text \<open>
  After inserting node 1 with \<open>coord_a\<close> and then with \<open>coord_b\<close>, the lookup gives
  \<open>coord_a\<close>, not the most recent \<open>coord_b\<close>.
\<close>

theorem NodeStore_most_recent_counterexample:
  "nodes_insert_back always_room 1 coord_a sparse_store
     = Some (Inr ((), sparse_store\<lparr>nodes := Sparse [1 \<mapsto> coord_a]\<rparr>))
   \<and> nodes_insert_back always_room 1 coord_b (sparse_store\<lparr>nodes := Sparse [1 \<mapsto> coord_a]\<rparr>)
     = Some (Inr ((), sparse_store\<lparr>nodes := Sparse [1 \<mapsto> coord_a]\<rparr>))
   \<and> nodes_at (sparse_store\<lparr>nodes := Sparse [1 \<mapsto> coord_a]\<rparr>) 1 = Inr coord_a
   \<and> nodes_at (sparse_store\<lparr>nodes := Sparse [1 \<mapsto> coord_a]\<rparr>) 1 \<noteq> Inr coord_b"
  using sparse_insert_a sparse_insert_b
  by (simp add: nodes_at_def impl_nodes_at_def NodeStore_at_def coord_a_def coord_b_def)

lemma apply_insert_keeps_node:
  assumes "nodes_at s i = Inr c" and "apply_insert avail op s = Some s'"
    and "\<forall>c'. op \<noteq> insert_node i c'"
  shows "nodes_at s' i = Inr c"
proof (cases op)
  case (insert_node j c')
  with assms(3) have ji: "j \<noteq> i" by auto
  then have u: "unat j \<noteq> unat i" by (simp add: word_unat_eq_iff)
  from assms(2) insert_node obtain x where "nodes_insert_back avail j c' s = Some (Inr (x, s'))"
    by (auto simp: returned_Some)
  from nodes_insert_back_returned [OF this] assms(1) ji u show ?thesis
    by (auto simp: nodes_at_def impl_nodes_at_def NodeStoreCompact_at_def NodeStore_at_def
        NodeStore_insert_back_def split: NodeStoreT.splits option.splits if_splits)
next
  case (insert_way j nodeVec)
  with assms(2) obtain x where "ways_insert_back avail j nodeVec s = Some (Inr (x, s'))"
    by (auto simp: returned_Some)
  from ways_insert_back_returned [OF this] have "nodes s' = nodes s" by auto
  with assms(1) show ?thesis by (simp add: nodes_at_def impl_nodes_at_def)
next
  case (insert_relation j outerWayVec innerWayVec)
  with assms(2) obtain x where
    "relations_insert_front avail j outerWayVec innerWayVec s = Some (Inr (x, s'))"
    by (auto simp: returned_Some)
  from relations_insert_front_returned [OF this] have "nodes s' = nodes s" by auto
  with assms(1) show ?thesis by (simp add: nodes_at_def impl_nodes_at_def)
qed

lemma apply_inserts_keep_node:
  assumes "nodes_at s i = Inr c" and "apply_inserts avail ops s = Some s'"
    and "\<forall>c'. insert_node i c' \<notin> set ops"
  shows "nodes_at s' i = Inr c"
  using assms
proof (induction ops arbitrary: s)
  case Nil
  then show ?case by simp
next
  case (Cons op ops)
  from Cons.prems(2) obtain s1 where s1: "apply_insert avail op s = Some s1"
    and rest: "apply_inserts avail ops s1 = Some s'"
    by (auto split: option.splits)
  from Cons.prems(3) have "\<forall>c'. op \<noteq> insert_node i c'" by auto
  from apply_insert_keeps_node [OF Cons.prems(1) s1 this] have "nodes_at s1 i = Inr c" .
  from Cons.IH [OF this rest] Cons.prems(3) show ?case by simp
qed

lemma apply_insert_keeps_sparse:
  assumes "nodes s = Sparse m" and "m i = Some c" and "apply_insert avail op s = Some s'"
  shows "\<exists>m'. nodes s' = Sparse m' \<and> m' i = Some c"
proof (cases op)
  case (insert_node j c')
  from assms(3) insert_node obtain x where "nodes_insert_back avail j c' s = Some (Inr (x, s'))"
    by (auto simp: returned_Some)
  from nodes_insert_back_returned [OF this] assms(1,2) show ?thesis
    by (auto simp: NodeStore_insert_back_def split: option.splits)
next
  case (insert_way j nodeVec)
  with assms(3) obtain x where "ways_insert_back avail j nodeVec s = Some (Inr (x, s'))"
    by (auto simp: returned_Some)
  from ways_insert_back_returned [OF this] have "nodes s' = nodes s" by auto
  with assms(1,2) show ?thesis by simp
next
  case (insert_relation j outerWayVec innerWayVec)
  with assms(3) obtain x where
    "relations_insert_front avail j outerWayVec innerWayVec s = Some (Inr (x, s'))"
    by (auto simp: returned_Some)
  from relations_insert_front_returned [OF this] have "nodes s' = nodes s" by auto
  with assms(1,2) show ?thesis by simp
qed

lemma apply_inserts_keep_sparse:
  assumes "nodes s = Sparse m" and "m i = Some c" and "apply_inserts avail ops s = Some s'"
  shows "\<exists>m'. nodes s' = Sparse m' \<and> m' i = Some c"
  using assms
proof (induction ops arbitrary: s m)
  case Nil
  then show ?case by simp
next
  case (Cons op ops)
  from Cons.prems(3) obtain s1 where s1: "apply_insert avail op s = Some s1"
    and rest: "apply_inserts avail ops s1 = Some s'"
    by (auto split: option.splits)
  from apply_insert_keeps_sparse [OF Cons.prems(1,2) s1] obtain m1 where
    "nodes s1 = Sparse m1" "m1 i = Some c" by blast
  from Cons.IH [OF this rest] show ?case .
qed

text \<open>
  Claim C5, as the code has it. After \<open>nodes_insert_back i c\<close> returned, and after any
  sequence of further inserts that all returned: in the vector store the lookup of \<open>i\<close>
  gives \<open>c\<close> when no later call inserted node \<open>i\<close> again; in the hash-map store it
  gives \<open>c\<close> when \<open>i\<close> was not in the store before the insert.
\<close>

theorem insert_node_then_lookup:
  assumes "nodes_insert_back avail i c s = Some (Inr (u, s1))"
    and "apply_inserts avail' ops s1 = Some s2"
  shows "(nodes s = Compact v \<and> (\<forall>c'. insert_node i c' \<notin> set ops) \<longrightarrow> nodes_at s2 i = Inr c)
       \<and> (nodes s = Sparse m \<and> m i = None \<longrightarrow> nodes_at s2 i = Inr c)"
proof (intro conjI impI)
  assume a: "nodes s = Compact v \<and> (\<forall>c'. insert_node i c' \<notin> set ops)"
  with nodes_insert_back_returned [OF assms(1)] have "nodes_at s1 i = Inr c"
    by (simp add: nodes_at_def impl_nodes_at_def NodeStoreCompact_at_def)
  from apply_inserts_keep_node [OF this assms(2)] a show "nodes_at s2 i = Inr c" by simp
next
  assume a: "nodes s = Sparse m \<and> m i = None"
  with nodes_insert_back_returned [OF assms(1)]
  have "nodes s1 = Sparse (m(i \<mapsto> c))" by (simp add: NodeStore_insert_back_def)
  from apply_inserts_keep_sparse [OF this _ assms(2), of i c]
  show "nodes_at s2 i = Inr c"
    by (auto simp: nodes_at_def impl_nodes_at_def NodeStore_at_def)
qed

text \<open>Both variants, each with further inserts after node 1.\<close>

theorem insert_node_then_lookup_witness:
  "nodes compact_store = Compact [LatpLon_zero, LatpLon_zero, LatpLon_zero, LatpLon_zero]
   \<and> nodes_insert_back always_room 1 coord_a compact_store
       = Some (Inr ((), compact_store\<lparr>nodes := Compact [LatpLon_zero, coord_a, LatpLon_zero, LatpLon_zero]\<rparr>))
   \<and> apply_inserts always_room [insert_node 2 coord_b, insert_way 5 [1, 2]]
        (compact_store\<lparr>nodes := Compact [LatpLon_zero, coord_a, LatpLon_zero, LatpLon_zero]\<rparr>)
       = Some (two_node_store\<lparr>ways := [5 \<mapsto> [1, 2]]\<rparr>)
   \<and> nodes_at (two_node_store\<lparr>ways := [5 \<mapsto> [1, 2]]\<rparr>) 1 = Inr coord_a
   \<and> nodes sparse_store = Sparse Map.empty
   \<and> nodes_insert_back always_room 1 coord_a sparse_store
       = Some (Inr ((), sparse_store\<lparr>nodes := Sparse [1 \<mapsto> coord_a]\<rparr>))
   \<and> apply_inserts always_room [insert_node 1 coord_b] (sparse_store\<lparr>nodes := Sparse [1 \<mapsto> coord_a]\<rparr>)
       = Some (sparse_store\<lparr>nodes := Sparse [1 \<mapsto> coord_a]\<rparr>)
   \<and> nodes_at (sparse_store\<lparr>nodes := Sparse [1 \<mapsto> coord_a]\<rparr>) 1 = Inr coord_a"
proof -
  have c: "nodes compact_store = Compact [LatpLon_zero, LatpLon_zero, LatpLon_zero, LatpLon_zero]
      \<and> (\<forall>c'. insert_node 1 c' \<notin> set [insert_node 2 coord_b, insert_way 5 [1, 2]])"
    by (simp add: compact_store_fields)
  have s: "nodes sparse_store = Sparse Map.empty \<and> Map.empty (1 :: NodeID) = (None :: LatpLon option)"
    by (simp add: sparse_store_fields)
  from insert_node_then_lookup [OF compact_insert_a compact_insert_more,
      of "[LatpLon_zero, LatpLon_zero, LatpLon_zero, LatpLon_zero]" Map.empty] c
  have 1: "nodes_at (two_node_store\<lparr>ways := [5 \<mapsto> [1, 2]]\<rparr>) 1 = Inr coord_a" by blast
  from insert_node_then_lookup [OF sparse_insert_a sparse_insert_again, of "[]" Map.empty] s
  have 2: "nodes_at (sparse_store\<lparr>nodes := Sparse [1 \<mapsto> coord_a]\<rparr>) 1 = Inr coord_a" by blast
  from 1 2 c s compact_insert_a compact_insert_more sparse_insert_a sparse_insert_again
  show ?thesis by simp
qed

text \<open>
  In the vector store a second insert of node 1 overwrites the first: after
  \<open>insert_node 1 coord_a\<close> and the further insert \<open>insert_node 1 coord_b\<close>, the lookup
  gives \<open>coord_b\<close>.
\<close>

theorem insert_node_then_lookup_counterexample:
  "OSMStoreImpl 1000 always_room (Compact []) 4 0 = Some (Inr ((), compact_store))
   \<and> nodes_insert_back always_room 1 coord_a compact_store
       = Some (Inr ((), compact_store\<lparr>nodes := Compact [LatpLon_zero, coord_a, LatpLon_zero, LatpLon_zero]\<rparr>))
   \<and> apply_inserts always_room [insert_node 1 coord_b]
        (compact_store\<lparr>nodes := Compact [LatpLon_zero, coord_a, LatpLon_zero, LatpLon_zero]\<rparr>)
       = Some (compact_store\<lparr>nodes := Compact [LatpLon_zero, coord_b, LatpLon_zero, LatpLon_zero]\<rparr>)
   \<and> nodes_at (compact_store\<lparr>nodes := Compact [LatpLon_zero, coord_b, LatpLon_zero, LatpLon_zero]\<rparr>) 1
       = Inr coord_b
   \<and> nodes_at (compact_store\<lparr>nodes := Compact [LatpLon_zero, coord_b, LatpLon_zero, LatpLon_zero]\<rparr>) 1
       \<noteq> Inr coord_a"
  using OSMStoreImpl_compact_store compact_insert_a compact_insert_again
  by (simp add: nodes_at_def impl_nodes_at_def NodeStoreCompact_at_def coord_a_def coord_b_def)

section \<open>Inserting ways and reading them back\<close>

text \<open>
  Claim C10. When the way id is already in the way store, \<open>insert_back\<close> with the same id
  and any node list leaves the map as it is and returns the reference to the entry that
  was there. Through \<open>ways_insert_back\<close>: the call returns, at once when the arena has
  room and else as soon as it has grown enough; it raises nothing, the handle it returns
  resolves to the node sequence stored first, and the three entity stores are unchanged
  (the arena may have grown on the way).
\<close>

theorem ways_insert_back_existing:
  assumes "ways s i = Some old"
  shows "WayStore_insert_back (ways s) i nodeVec = (ways s, i)
     \<and> (avail s \<longrightarrow> ways_insert_back avail i nodeVec s = Some (Inr (way_handle i, s)))
     \<and> (avail ((grow_reopen ^^ k) s) \<longrightarrow>
          (\<exists>s'. ways_insert_back avail i nodeVec s = Some (Inr (way_handle i, s'))))
     \<and> (ways_insert_back avail i nodeVec s = Some r \<longrightarrow>
          (\<exists>s'. r = Inr (way_handle i, s') \<and> ways s' = ways s \<and> nodes s' = nodes s
                \<and> relations s' = relations s \<and> WayStore_at (ways s') i = Inr old
                \<and> retrieve_way s' (way_handle i) = Inr old))"
proof (intro conjI impI)
  show w: "WayStore_insert_back (ways s) i nodeVec = (ways s, i)"
    using assms by (simp add: WayStore_insert_back_def)
  show "ways_insert_back avail i nodeVec s = Some (Inr (way_handle i, s))" if "avail s"
    using ways_insert_back_at_once [of avail s i nodeVec] that w by simp
  show "\<exists>s'. ways_insert_back avail i nodeVec s = Some (Inr (way_handle i, s'))"
    if "avail ((grow_reopen ^^ k) s)"
  proof -
    from that ways_insert_back_returns [of avail k s i nodeVec] obtain r where
      r: "ways_insert_back avail i nodeVec s = Some r" by blast
    from ways_insert_back_returned [OF r] r show ?thesis by auto
  qed
  show "\<exists>s'. r = Inr (way_handle i, s') \<and> ways s' = ways s \<and> nodes s' = nodes s
                \<and> relations s' = relations s \<and> WayStore_at (ways s') i = Inr old
                \<and> retrieve_way s' (way_handle i) = Inr old"
    if "ways_insert_back avail i nodeVec s = Some r"
    using ways_insert_back_returned [OF that] w assms
    by (auto simp: WayStore_at_def retrieve_way_def)
qed

text \<open>Way 5 is stored as \<open>[1, 2]\<close>; inserting it again as \<open>[1, 2, 3]\<close> changes nothing.\<close>

theorem ways_insert_back_existing_witness:
  "ways one_way_store 5 = Some [1, 2]
   \<and> WayStore_insert_back (ways one_way_store) 5 [1, 2, 3] = (ways one_way_store, 5)
   \<and> ways_insert_back always_room 5 [1, 2, 3] one_way_store = Some (Inr (way_handle 5, one_way_store))
   \<and> retrieve_way one_way_store (way_handle 5) = Inr [1, 2]"
proof -
  have h: "ways one_way_store 5 = Some [1, 2]" by (simp add: one_way_store_fields)
  have a: "always_room one_way_store" by (simp add: always_room_def)
  from ways_insert_back_existing [OF h, of "[1, 2, 3]" always_room 0 "Inr (way_handle 5, one_way_store)"] a h
  show ?thesis by auto
qed

text \<open>
  Claim C9. For a handle of a stored way whose node sequence is empty, \<open>wayIsClosed\<close>
  returns true: \<open>way.empty()\<close> is tested first, \<open>front()\<close> and \<open>back()\<close> are not read.
\<close>

theorem wayIsClosed_empty:
  "retrieve_way s handle = Inr [] \<Longrightarrow> wayIsClosed s handle = Inr True"
  by (simp add: wayIsClosed_def)

text \<open>The handle that inserting the empty way 6 returns.\<close>

theorem wayIsClosed_empty_witness:
  "ways_insert_back always_room 6 [] one_way_store
     = Some (Inr (way_handle 6, one_way_store\<lparr>ways := [5 \<mapsto> [1, 2], 6 \<mapsto> []]\<rparr>))
   \<and> retrieve_way (one_way_store\<lparr>ways := [5 \<mapsto> [1, 2], 6 \<mapsto> []]\<rparr>) (way_handle 6) = Inr []
   \<and> wayIsClosed (one_way_store\<lparr>ways := [5 \<mapsto> [1, 2], 6 \<mapsto> []]\<rparr>) (way_handle 6) = Inr True"
proof -
  let ?s = "one_way_store\<lparr>ways := [5 \<mapsto> [1, 2], 6 \<mapsto> []]\<rparr>"
  have a: "always_room one_way_store" by (simp add: always_room_def)
  have i: "ways_insert_back always_room 6 [] one_way_store = Some (Inr (way_handle 6, ?s))"
    using ways_insert_back_at_once [of always_room one_way_store 6 "[]"] a
    by (simp add: WayStore_insert_back_def one_way_store_fields)
  have r: "retrieve_way ?s (way_handle 6) = Inr []" by (simp add: retrieve_way_def)
  from i r wayIsClosed_empty [OF r] show ?thesis by simp
qed

lemma fillPoints_all:
  assumes "\<forall>n\<in>set nodeVec. \<exists>ll. nodes_at s n = Inr ll"
  shows "\<exists>ls. fillPoints s points nodeVec = Inr (points @ ls) \<and> length ls = length nodeVec
           \<and> (\<forall>k<length nodeVec. \<exists>ll. nodes_at s (nodeVec ! k) = Inr ll \<and> ls ! k = make_Point ll)"
  using assms
proof (induction nodeVec arbitrary: points)
  case Nil
  show ?case by simp
next
  case (Cons n rest)
  from Cons.prems obtain ll where ll: "nodes_at s n = Inr ll" by auto
  from Cons.prems have "\<forall>n\<in>set rest. \<exists>ll. nodes_at s n = Inr ll" by simp
  from Cons.IH [OF this, of "points @ [make_Point ll]"] obtain ls where
    ls: "fillPoints s (points @ [make_Point ll]) rest = Inr ((points @ [make_Point ll]) @ ls)"
        "length ls = length rest"
        "\<forall>k<length rest. \<exists>ll. nodes_at s (rest ! k) = Inr ll \<and> ls ! k = make_Point ll"
    by blast
  have "\<forall>k<length (n # rest). \<exists>l. nodes_at s ((n # rest) ! k) = Inr l \<and> (make_Point ll # ls) ! k = make_Point l"
  proof (intro allI impI)
    fix k assume "k < length (n # rest)"
    then show "\<exists>l. nodes_at s ((n # rest) ! k) = Inr l \<and> (make_Point ll # ls) ! k = make_Point l"
      using ll ls(3) by (cases k) auto
  qed
  moreover have "fillPoints s points (n # rest) = Inr (points @ (make_Point ll # ls))"
    using ll ls(1) by simp
  moreover have "length (make_Point ll # ls) = length (n # rest)" using ls(2) by simp
  ultimately show ?case by blast
qed

text \<open>
  Claim C6, as the code has it. For a way inserted under an id that the way store does not
  hold yet, with every node of its list in the node store, \<open>nodeListLinestring\<close> on the
  returned handle gives as many points as the list has nodes, in the order of the list,
  the \<open>k\<close>-th being \<open>(lon, latp)\<close> of the \<open>k\<close>-th node, each divided by \<open>10\<^sup>7\<close>.
\<close>

theorem nodeListLinestring_round_trip:
  assumes "ways s i = None"
    and "\<forall>n\<in>set nodeVec. \<exists>ll. nodes_at s n = Inr ll"
    and "ways_insert_back avail i nodeVec s = Some (Inr (handle, s'))"
  shows "\<exists>ls. nodeListLinestring s' handle = Inr ls \<and> length ls = length nodeVec
           \<and> (\<forall>k<length nodeVec. \<exists>ll. nodes_at s' (nodeVec ! k) = Inr ll
                 \<and> ls ! k = (real_of_int (sint (lon ll)) / 10000000,
                             real_of_int (sint (latp ll)) / 10000000))"
proof -
  from ways_insert_back_returned [OF assms(3)] assms(1)
  have h: "handle = way_handle i" and w: "ways s' i = Some nodeVec" and n: "nodes s' = nodes s"
    by (auto simp: WayStore_insert_back_def)
  from n have "nodes_at s' = nodes_at s" by (auto simp: nodes_at_def impl_nodes_at_def)
  with assms(2) have "\<forall>n\<in>set nodeVec. \<exists>ll. nodes_at s' n = Inr ll" by simp
  from fillPoints_all [OF this, of "[]"] h w show ?thesis
    by (simp add: nodeListLinestring_def retrieve_way_def make_Point_def)
qed

text \<open>Way 5 over the nodes 1 and 2 of a store that holds \<open>coord_a\<close> and \<open>coord_b\<close> for them.\<close>

theorem nodeListLinestring_round_trip_witness:
  "ways two_node_store 5 = None
   \<and> nodes_at two_node_store 1 = Inr coord_a \<and> nodes_at two_node_store 2 = Inr coord_b
   \<and> ways_insert_back always_room 5 [1, 2] two_node_store
       = Some (Inr (way_handle 5, two_node_store\<lparr>ways := [5 \<mapsto> [1, 2]]\<rparr>))
   \<and> (\<exists>ls. nodeListLinestring (two_node_store\<lparr>ways := [5 \<mapsto> [1, 2]]\<rparr>) (way_handle 5) = Inr ls
          \<and> length ls = 2)
   \<and> nodeListLinestring (two_node_store\<lparr>ways := [5 \<mapsto> [1, 2]]\<rparr>) (way_handle 5)
       = Inr [(20 / 10000000, 10 / 10000000), (40 / 10000000, 30 / 10000000)]"
proof -
  have w: "ways two_node_store 5 = None" by (simp add: two_node_store_fields)
  have n1: "nodes_at two_node_store 1 = Inr coord_a"
    by (simp add: nodes_at_def impl_nodes_at_def two_node_store_fields NodeStoreCompact_at_def)
  have n2: "nodes_at two_node_store 2 = Inr coord_b"
    by (simp add: nodes_at_def impl_nodes_at_def two_node_store_fields NodeStoreCompact_at_def
        nth_Cons_numeral_pred)
  have n: "\<forall>n\<in>set [1, 2]. \<exists>ll. nodes_at two_node_store n = Inr ll"
    using n1 n2 by simp
  have i: "ways_insert_back always_room 5 [1, 2] two_node_store
       = Some (Inr (way_handle 5, two_node_store\<lparr>ways := [5 \<mapsto> [1, 2]]\<rparr>))"
    by (simp add: ways_insert_back_always_room WayStore_insert_back_def two_node_store_fields)
  from nodeListLinestring_round_trip [OF w n i]
  have e: "\<exists>ls. nodeListLinestring (two_node_store\<lparr>ways := [5 \<mapsto> [1, 2]]\<rparr>) (way_handle 5) = Inr ls
          \<and> length ls = 2"
    by auto
  have v: "nodeListLinestring (two_node_store\<lparr>ways := [5 \<mapsto> [1, 2]]\<rparr>) (way_handle 5)
       = Inr [(20 / 10000000, 10 / 10000000), (40 / 10000000, 30 / 10000000)]"
    by (simp add: nodeListLinestring_def retrieve_way_def nodes_at_def impl_nodes_at_def
        two_node_store_fields NodeStoreCompact_at_def nth_Cons_numeral_pred make_Point_def
        coord_a_def coord_b_def)
  from w n1 n2 i e v show ?thesis by simp
qed

text \<open>
  Way 5 is stored as \<open>[1, 2]\<close>. Inserting way 5 with the node list \<open>[1, 2, 3]\<close>, all
  three nodes in the store, returns the handle of the stored way: its linestring has two
  points, not three.
\<close>

theorem nodeListLinestring_reinsert_counterexample:
  "ways_insert_back always_room 5 [1, 2, 3] one_way_store
       = Some (Inr (way_handle 5, one_way_store))
   \<and> nodes_at one_way_store 1 = Inr LatpLon_zero \<and> nodes_at one_way_store 2 = Inr LatpLon_zero
   \<and> nodes_at one_way_store 3 = Inr LatpLon_zero
   \<and> nodeListLinestring one_way_store (way_handle 5) = Inr [(0, 0), (0, 0)]
   \<and> length [(0, 0), (0, 0) :: Point] \<noteq> length [1, 2, 3 :: NodeID]"
  by (simp add: ways_insert_back_always_room WayStore_insert_back_def one_way_store_fields
      nodeListLinestring_def retrieve_way_def nodes_at_def impl_nodes_at_def NodeStoreCompact_at_def
      nth_Cons_numeral_pred make_Point_def LatpLon_zero_def)

section \<open>The stitching loop comes to an end\<close>

lemma join_chains:
  assumes "mergeMultiPolygonWays_join jFirst jLast jNodes results = Inr (results', joined)"
    and "[] \<notin> set results" and "jNodes \<noteq> []"
  shows "[] \<notin> set results'"
  using assms
  by (induction results arbitrary: results')
     (auto simp: Let_def split: if_splits sum.splits prod.splits)

lemma join_no_error:
  assumes "[] \<notin> set results"
  shows "\<exists>results' joined. mergeMultiPolygonWays_join jFirst jLast jNodes results = Inr (results', joined)"
  using assms
  by (induction results) (auto simp: Let_def split: if_splits sum.splits prod.splits)

lemma pass_marks:
  assumes "mergeMultiPolygonWays_pass ws its results done added = Inr (results', done', added')"
  shows "(\<forall>w. done w \<longrightarrow> done' w) \<and> added \<le> added'
       \<and> (added < added' \<longrightarrow> (\<exists>w\<in>set its. \<not> done w \<and> done' w))
       \<and> (added = added' \<longrightarrow> done' = done)"
  using assms
proof (induction its arbitrary: results "done" added)
  case Nil
  then show ?case by simp
next
  case (Cons it its)
  show ?case
  proof (cases "done it")
    case True
    with Cons.prems have "mergeMultiPolygonWays_pass ws its results done added
        = Inr (results', done', added')" by simp
    from Cons.IH [OF this] show ?thesis by auto
  next
    case False
    with Cons.prems obtain way wayClosed where way: "WayStore_at ws it = Inr way"
      and cl: "isClosed way = Inr wayClosed"
      by (auto split: sum.splits)
    show ?thesis
    proof (cases wayClosed)
      case True
      with Cons.prems False way cl
      have "mergeMultiPolygonWays_pass ws its (results @ [way]) (done(it := True)) (added + 1)
          = Inr (results', done', added')" by simp
      from Cons.IH [OF this] have "(\<forall>w. (done(it := True)) w \<longrightarrow> done' w) \<and> added + 1 \<le> added'"
        by simp
      with False show ?thesis by (auto split: if_splits)
    next
      case nc: False
      with Cons.prems False way cl obtain results1 joined where
        j: "mergeMultiPolygonWays_join (hd way) (last way) way results = Inr (results1, joined)"
        by (auto split: sum.splits)
      show ?thesis
      proof (cases joined)
        case True
        with Cons.prems False way cl nc j
        have "mergeMultiPolygonWays_pass ws its results1 (done(it := True)) (added + 1)
            = Inr (results', done', added')" by simp
        from Cons.IH [OF this] have "(\<forall>w. (done(it := True)) w \<longrightarrow> done' w) \<and> added + 1 \<le> added'"
          by simp
        with False show ?thesis by (auto split: if_splits)
      next
        case nj: False
        with Cons.prems False way cl nc j
        have "mergeMultiPolygonWays_pass ws its results1 done added
            = Inr (results', done', added')" by simp
        from Cons.IH [OF this] show ?thesis by auto
      qed
    qed
  qed
qed

lemma seed_marks:
  assumes "mergeMultiPolygonWays_seed ws its results done added = Inr (results', done', added')"
  shows "(\<forall>w. done w \<longrightarrow> done' w)
       \<and> ((added' = added \<and> done' = done \<and> (\<forall>w\<in>set its. done w))
          \<or> (added' = added + 1 \<and> (\<exists>w\<in>set its. \<not> done w \<and> done' w)))"
  using assms
  by (induction its) (auto split: if_splits sum.splits)

lemma round_marks:
  assumes "mergeMultiPolygonWays_round ws its results done = Inr (results', done', added)"
  shows "(\<forall>w. done w \<longrightarrow> done' w) \<and> 0 \<le> added
       \<and> (0 < added \<longrightarrow> (\<exists>w\<in>set its. \<not> done w \<and> done' w))
       \<and> (added = 0 \<longrightarrow> done' = done \<and> (\<forall>w\<in>set its. done w))"
proof -
  from assms obtain results1 done1 added1 where
    p: "mergeMultiPolygonWays_pass ws its results done 0 = Inr (results1, done1, added1)"
    by (auto simp: mergeMultiPolygonWays_round_def split: sum.splits)
  note pm = pass_marks [OF p]
  show ?thesis
  proof (cases "added1 = 0")
    case True
    with assms p have s: "mergeMultiPolygonWays_seed ws its results1 done1 0
        = Inr (results', done', added)"
      by (simp add: mergeMultiPolygonWays_round_def)
    from pm True have d1: "done1 = done" by simp
    from seed_marks [OF s] d1 show ?thesis by auto
  next
    case False
    with assms p have "results' = results1" "done' = done1" "added = added1"
      by (simp_all add: mergeMultiPolygonWays_round_def)
    with pm False show ?thesis by auto
  qed
qed

lemma round_decreases:
  assumes "mergeMultiPolygonWays_round ws its results done = Inr (results', done', added)"
    and "0 < added"
  shows "card {w \<in> set its. \<not> done' w} < card {w \<in> set its. \<not> done w}"
proof -
  from round_marks [OF assms(1)] assms(2) obtain w where
    mono: "\<forall>w. done w \<longrightarrow> done' w" and w: "w \<in> set its" "\<not> done w" "done' w"
    by auto
  have "{w \<in> set its. \<not> done' w} \<subset> {w \<in> set its. \<not> done w}"
    using mono w by auto
  then show ?thesis by (simp add: psubset_card_mono)
qed

lemma merge_terminates:
  "\<exists>r. mergeMultiPolygonWays ws its results done = Some r"
proof (induction "card {w \<in> set its. \<not> done w}" arbitrary: results "done" rule: less_induct)
  case less
  show ?case
  proof (cases "mergeMultiPolygonWays_round ws its results done")
    case (Inl e)
    then show ?thesis by (subst mergeMultiPolygonWays.simps) simp
  next
    case (Inr x)
    obtain results' done' added where x: "x = (results', done', added)" by (cases x)
    show ?thesis
    proof (cases "0 < added")
      case True
      from round_decreases [OF Inr [unfolded x] True] 
      have "\<exists>r. mergeMultiPolygonWays ws its results' done' = Some r" by (rule less)
      then show ?thesis using Inr x True by (subst mergeMultiPolygonWays.simps) simp
    next
      case False
      then show ?thesis using Inr x by (subst mergeMultiPolygonWays.simps) simp
    qed
  qed
qed

lemma pass_no_error:
  assumes "\<forall>w\<in>set its. \<exists>way. ws w = Some way \<and> way \<noteq> []" and "[] \<notin> set results"
  shows "\<exists>results' done' added'.
           mergeMultiPolygonWays_pass ws its results done added = Inr (results', done', added')
           \<and> [] \<notin> set results'"
  using assms
proof (induction its arbitrary: results "done" added)
  case Nil
  then show ?case by simp
next
  case (Cons it its)
  from Cons.prems(1) obtain way where way: "ws it = Some way" "way \<noteq> []" by auto
  from Cons.prems(1) have rest: "\<forall>w\<in>set its. \<exists>way. ws w = Some way \<and> way \<noteq> []" by simp
  show ?case
  proof (cases "done it")
    case True
    with Cons.IH [OF rest Cons.prems(2), of "done" added] show ?thesis by simp
  next
    case False
    show ?thesis
    proof (cases "hd way = last way")
      case True
      from way Cons.prems(2) have "[] \<notin> set (results @ [way])" by simp
      moreover have "mergeMultiPolygonWays_pass ws (it # its) results done added
          = mergeMultiPolygonWays_pass ws its (results @ [way]) (done(it := True)) (added + 1)"
        using False True way by (simp add: WayStore_at_def isClosed_def)
      ultimately show ?thesis
        using Cons.IH [OF rest, of "results @ [way]" "done(it := True)" "added + 1"]
        by metis
    next
      case nc: False
      from join_no_error [OF Cons.prems(2), of "hd way" "last way" way] obtain results1 joined where
        j: "mergeMultiPolygonWays_join (hd way) (last way) way results = Inr (results1, joined)"
        by blast
      from join_chains [OF j Cons.prems(2) way(2)] have r1: "[] \<notin> set results1" .
      have "mergeMultiPolygonWays_pass ws (it # its) results done added
          = (if joined
             then mergeMultiPolygonWays_pass ws its results1 (done(it := True)) (added + 1)
             else mergeMultiPolygonWays_pass ws its results1 done added)"
        using False nc way j by (simp add: WayStore_at_def isClosed_def)
      then show ?thesis
        using Cons.IH [OF rest r1, of "done(it := True)" "added + 1"]
          Cons.IH [OF rest r1, of "done" added]
        by (cases joined) metis+
    qed
  qed
qed

lemma seed_no_error:
  assumes "\<forall>w\<in>set its. \<exists>way. ws w = Some way \<and> way \<noteq> []" and "[] \<notin> set results"
  shows "\<exists>results' done' added'.
           mergeMultiPolygonWays_seed ws its results done added = Inr (results', done', added')
           \<and> [] \<notin> set results'"
  using assms
  by (induction its) (auto simp: WayStore_at_def)

lemma round_no_error:
  assumes "\<forall>w\<in>set its. \<exists>way. ws w = Some way \<and> way \<noteq> []" and "[] \<notin> set results"
  shows "\<exists>results' done' added.
           mergeMultiPolygonWays_round ws its results done = Inr (results', done', added)
           \<and> [] \<notin> set results'"
proof -
  from pass_no_error [OF assms, of "done" 0] obtain results1 done1 added1 where
    p: "mergeMultiPolygonWays_pass ws its results done 0 = Inr (results1, done1, added1)"
       "[] \<notin> set results1"
    by blast
  from seed_no_error [OF assms(1) p(2), of done1 added1] p show ?thesis
    by (auto simp: mergeMultiPolygonWays_round_def)
qed

lemma merge_completes:
  assumes "\<forall>w\<in>set its. \<exists>way. ws w = Some way \<and> way \<noteq> []" and "[] \<notin> set results"
  shows "\<exists>results' done'. mergeMultiPolygonWays ws its results done = Some (Inr (results', done'))
           \<and> (\<forall>w\<in>set its. done' w)"
  using assms(2)
proof (induction "card {w \<in> set its. \<not> done w}" arbitrary: results "done" rule: less_induct)
  case less
  from round_no_error [OF assms(1) less.prems, of "done"] obtain results1 done1 added where
    r: "mergeMultiPolygonWays_round ws its results done = Inr (results1, done1, added)"
       "[] \<notin> set results1"
    by blast
  show ?case
  proof (cases "0 < added")
    case True
    from round_decreases [OF r(1) True] r(2)
    have "\<exists>results' done'. mergeMultiPolygonWays ws its results1 done1 = Some (Inr (results', done'))
           \<and> (\<forall>w\<in>set its. done' w)"
      by (rule less)
    then show ?thesis using r(1) True by (subst mergeMultiPolygonWays.simps) simp
  next
    case False
    with round_marks [OF r(1)] have "added = 0" "\<forall>w\<in>set its. done1 w" by auto
    then show ?thesis using r(1) by (subst mergeMultiPolygonWays.simps) simp
  qed
qed

lemma merge_no_ways:
  "mergeMultiPolygonWays ws [] results done = Some (Inr (results, done))"
  by (subst mergeMultiPolygonWays.simps) (simp add: mergeMultiPolygonWays_round_def)

lemma stitch_round1:
  "mergeMultiPolygonWays_round stitch_ways [200, 201] [] no_way_done
     = Inr ([[1, 2, 3]], no_way_done(200 := True), 1)"
  by (simp add: mergeMultiPolygonWays_round_def stitch_ways_def WayStore_at_def isClosed_def
      no_way_done_def)

lemma stitch_round2:
  "mergeMultiPolygonWays_round stitch_ways [200, 201] [[1, 2, 3]] (no_way_done(200 := True))
     = Inr ([[1, 2, 3, 3, 4, 1]], no_way_done(200 := True, 201 := True), 1)"
  by (simp add: mergeMultiPolygonWays_round_def stitch_ways_def WayStore_at_def isClosed_def
      no_way_done_def)

lemma stitch_round3:
  "mergeMultiPolygonWays_round stitch_ways [200, 201] [[1, 2, 3, 3, 4, 1]]
       (no_way_done(200 := True, 201 := True))
     = Inr ([[1, 2, 3, 3, 4, 1]], no_way_done(200 := True, 201 := True), 0)"
  by (simp add: mergeMultiPolygonWays_round_def stitch_ways_def WayStore_at_def isClosed_def
      no_way_done_def)

lemma stitch_merge:
  "mergeMultiPolygonWays stitch_ways [200, 201] [] no_way_done
     = Some (Inr ([[1, 2, 3, 3, 4, 1]], no_way_done(200 := True, 201 := True)))"
  apply (subst mergeMultiPolygonWays.simps)
  apply (simp only: stitch_round1 sum.case prod.case)
  apply (subst mergeMultiPolygonWays.simps)
  apply (simp only: stitch_round2 sum.case prod.case)
  apply (subst mergeMultiPolygonWays.simps)
  apply (simp only: stitch_round3 sum.case prod.case)
  apply simp
  done

lemma stitch_chains:
  "wayListMultiPolygon_chains stitch_ways [200, 201] [] = Some (Inr ([[1, 2, 3, 3, 4, 1]], []))"
  by (simp add: wayListMultiPolygon_chains_def stitch_merge merge_no_ways)

text \<open>
  The loop of \<open>mergeMultiPolygonWays\<close> comes to its exit for every store, every sequence
  of way ids and every state it is started in, an exit through an exception or at a read
  of an empty range included. When every way id of the sequence is in the way store with a
  node list that is not empty (and no chain handed in is empty), it returns normally with
  every way of the sequence marked done. A round that does not throw adds a way exactly
  when one was not done yet, and then fewer ways are left undone than before.
\<close>

theorem mergeMultiPolygonWays_terminates:
  "(\<exists>r. mergeMultiPolygonWays ws its results done = Some r)
   \<and> ((\<forall>w\<in>set its. \<exists>way. ws w = Some way \<and> way \<noteq> []) \<and> [] \<notin> set results \<longrightarrow>
        (\<exists>results' done'. mergeMultiPolygonWays ws its results done = Some (Inr (results', done'))
           \<and> (\<forall>w\<in>set its. done' w)))
   \<and> (mergeMultiPolygonWays_round ws its results done = Inr (results1, done1, added) \<longrightarrow>
        (0 < added \<longleftrightarrow> (\<exists>w\<in>set its. \<not> done w))
        \<and> (0 < added \<longrightarrow> card {w \<in> set its. \<not> done1 w} < card {w \<in> set its. \<not> done w}))"
proof (intro conjI impI)
  show "\<exists>r. mergeMultiPolygonWays ws its results done = Some r"
    by (rule merge_terminates)
  show "\<exists>results' done'. mergeMultiPolygonWays ws its results done = Some (Inr (results', done'))
           \<and> (\<forall>w\<in>set its. done' w)"
    if "(\<forall>w\<in>set its. \<exists>way. ws w = Some way \<and> way \<noteq> []) \<and> [] \<notin> set results"
    using that merge_completes [of its ws results "done"] by blast
  assume r: "mergeMultiPolygonWays_round ws its results done = Inr (results1, done1, added)"
  from round_marks [OF r] show "0 < added \<longleftrightarrow> (\<exists>w\<in>set its. \<not> done w)"
    by (cases "0 < added") auto
  show "card {w \<in> set its. \<not> done1 w} < card {w \<in> set its. \<not> done w}" if "0 < added"
    using round_decreases [OF r that] .
qed

text \<open>The two ways of the stitching example: the first round seeds way 200.\<close>

theorem mergeMultiPolygonWays_terminates_witness:
  "stitch_ways 200 = Some [1, 2, 3] \<and> stitch_ways 201 = Some [3, 4, 1]
   \<and> (\<exists>results' done'. mergeMultiPolygonWays stitch_ways [200, 201] [] no_way_done
          = Some (Inr (results', done')) \<and> done' 200 \<and> done' 201)
   \<and> mergeMultiPolygonWays_round stitch_ways [200, 201] [] no_way_done
       = Inr ([[1, 2, 3]], no_way_done(200 := True), 1)
   \<and> card {w \<in> set [200, 201]. \<not> (no_way_done(200 := True)) w}
       < card {w \<in> set [200, 201]. \<not> no_way_done w}"
proof -
  have p: "(\<forall>w\<in>set [200, 201]. \<exists>way. stitch_ways w = Some way \<and> way \<noteq> []) \<and> [] \<notin> set []"
    by (simp add: stitch_ways_def)
  from mergeMultiPolygonWays_terminates
    [of stitch_ways "[200, 201]" "[]" no_way_done "[[1, 2, 3]]" "no_way_done(200 := True)" 1]
    p stitch_round1
  show ?thesis by (simp add: stitch_ways_def)
qed

text \<open>The first round on the way with no nodes.\<close>

lemma empty_way_round:
  "mergeMultiPolygonWays_round empty_way_ways [6] [] no_way_done = Inl undefined_behaviour"
  by (simp add: mergeMultiPolygonWays_round_def empty_way_ways_def WayStore_at_def isClosed_def
      no_way_done_def)

lemma empty_way_merge:
  "mergeMultiPolygonWays empty_way_ways [6] [] no_way_done = Some (Inl undefined_behaviour)"
  by (subst mergeMultiPolygonWays.simps) (simp add: empty_way_round)

text \<open>
  Claim C8 says that the loop terminates whenever every way id of the sequence is in the
  way store. Way 6 is in the store, with no nodes: \<open>ways_insert_back\<close> takes the empty
  node list, and \<open>wayIsClosed\<close> answers for its handle because it tests \<open>way.empty()\<close>
  first. \<open>isClosed\<close> has no such test. The first pass looks way 6 up and calls
  \<open>isClosed\<close>, which reads \<open>*way.begin\<close> and \<open>*std::prev(way.end)\<close> of the empty
  range, so the loop ends there, without a result and with way 6 not done.
\<close>

theorem empty_way_stops_stitching:
  "ways_insert_back always_room 6 [] compact_store
     = Some (Inr (way_handle 6, compact_store\<lparr>ways := empty_way_ways\<rparr>))
   \<and> wayIsClosed (compact_store\<lparr>ways := empty_way_ways\<rparr>) (way_handle 6) = Inr True
   \<and> WayStore_at empty_way_ways 6 = Inr []
   \<and> isClosed [] = Inl undefined_behaviour
   \<and> mergeMultiPolygonWays empty_way_ways [6] [] no_way_done = Some (Inl undefined_behaviour)
   \<and> wayListMultiPolygon_chains empty_way_ways [6] [] = Some (Inl undefined_behaviour)"
  by (simp add: ways_insert_back_always_room WayStore_insert_back_def compact_store_fields
      empty_way_ways_def [symmetric] wayIsClosed_def retrieve_way_def WayStore_at_def isClosed_def
      wayListMultiPolygon_chains_def empty_way_merge)
     (simp add: empty_way_ways_def)

section \<open>What the join does to a chain\<close>

lemma closed_round1:
  "mergeMultiPolygonWays_round closed_ways [10, 11] [] no_way_done
     = Inr ([[1, 2, 1, 1, 5]], no_way_done(10 := True, 11 := True), 2)"
  by (simp add: mergeMultiPolygonWays_round_def closed_ways_def WayStore_at_def isClosed_def
      no_way_done_def)

lemma closed_round2:
  "mergeMultiPolygonWays_round closed_ways [10, 11] [[1, 2, 1, 1, 5]]
       (no_way_done(10 := True, 11 := True))
     = Inr ([[1, 2, 1, 1, 5]], no_way_done(10 := True, 11 := True), 0)"
  by (simp add: mergeMultiPolygonWays_round_def closed_ways_def WayStore_at_def isClosed_def
      no_way_done_def)

lemma closed_merge:
  "mergeMultiPolygonWays closed_ways [10, 11] [] no_way_done
     = Some (Inr ([[1, 2, 1, 1, 5]], no_way_done(10 := True, 11 := True)))"
  apply (subst mergeMultiPolygonWays.simps)
  apply (simp only: closed_round1 sum.case prod.case)
  apply (subst mergeMultiPolygonWays.simps)
  apply (simp only: closed_round2 sum.case prod.case)
  apply simp
  done

text \<open>
  Claim C1 says that a chain which is already closed accepts no further way. The guard of
  the source, \<open>if (jFirst==jLast) continue;\<close>, compares the end nodes of the way being
  joined, which differ in this branch, and never those of the chain. So the closed way 10,
  the chain \<open>[1, 2, 1]\<close>, gets the open way 11 appended at its last node.
\<close>

theorem closed_chain_accepts_way:
  "isClosed [1, 2, 1] = Inr True
   \<and> mergeMultiPolygonWays_join 1 5 [1, 5] [[1, 2, 1]] = Inr ([[1, 2, 1, 1, 5]], True)
   \<and> wayListMultiPolygon_chains closed_ways [10, 11] [] = Some (Inr ([[1, 2, 1, 1, 5]], []))"
  by (simp add: isClosed_def wayListMultiPolygon_chains_def closed_merge merge_no_ways)

text \<open>
  Claim C2, as the code has it. In the first join case (the way is open and the chain's
  last node is the way's first node) the whole way is appended to the chain, its first node
  included, so the shared node stands twice in a row in the chain. For the ways
  \<open>200 = [1, 2, 3]\<close> and \<open>201 = [3, 4, 1]\<close> the outer chains are the one chain
  \<open>1, 2, 3, 3, 4, 1\<close>.
\<close>

theorem join_appends_whole_way:
  "(jNodes \<noteq> [] \<and> hd jNodes \<noteq> last jNodes \<and> ot \<noteq> [] \<and> last ot = hd jNodes \<longrightarrow>
      mergeMultiPolygonWays_join (hd jNodes) (last jNodes) jNodes (ot # rest)
        = Inr ((ot @ jNodes) # rest, True)
      \<and> (ot @ jNodes) ! (length ot - 1) = hd jNodes \<and> (ot @ jNodes) ! length ot = hd jNodes)
   \<and> wayListMultiPolygon_chains stitch_ways [200, 201] [] = Some (Inr ([[1, 2, 3, 3, 4, 1]], []))"
proof (intro conjI impI)
  assume a: "jNodes \<noteq> [] \<and> hd jNodes \<noteq> last jNodes \<and> ot \<noteq> [] \<and> last ot = hd jNodes"
  then show "mergeMultiPolygonWays_join (hd jNodes) (last jNodes) jNodes (ot # rest)
        = Inr ((ot @ jNodes) # rest, True)"
    by simp
  from a have "ot ! (length ot - 1) = hd jNodes"
    using last_conv_nth [of ot] by simp
  with a show "(ot @ jNodes) ! (length ot - 1) = hd jNodes"
    by (simp add: nth_append)
  from a show "(ot @ jNodes) ! length ot = hd jNodes"
    by (simp add: nth_append hd_conv_nth)
next
  show "wayListMultiPolygon_chains stitch_ways [200, 201] [] = Some (Inr ([[1, 2, 3, 3, 4, 1]], []))"
    by (rule stitch_chains)
qed

text \<open>Way 201 joined to the chain of way 200.\<close>

theorem join_appends_whole_way_witness:
  "mergeMultiPolygonWays_join 3 1 [3, 4, 1] [[1, 2, 3]] = Inr ([[1, 2, 3, 3, 4, 1]], True)
   \<and> [1, 2, 3, 3, 4, 1] ! 2 = (3 :: NodeID) \<and> [1, 2, 3, 3, 4, 1] ! 3 = (3 :: NodeID)"
  using join_appends_whole_way [of "[3, 4, 1]" "[1, 2, 3]" "[]"]
  by simp

text \<open>The stitched outer chain of the two ways is not \<open>1, 2, 3, 4, 1\<close>.\<close>

theorem join_skips_first_node_counterexample:
  "wayListMultiPolygon_chains stitch_ways [200, 201] [] = Some (Inr ([[1, 2, 3, 3, 4, 1]], []))
   \<and> wayListMultiPolygon_chains stitch_ways [200, 201] [] \<noteq> Some (Inr ([[1, 2, 3, 4, 1]], []))"
  by (simp add: stitch_chains)

end
